theory Spec2Isabelle
  imports Complex_Main "HOL-Library.Char_ord" "HOL-Library.List_Lexorder"
begin

section \<open>Text\<close>

text \<open>
  A Python \<open>str\<close> is modelled as a list of 8-bit characters, read as the code points
  0..255 (ASCII and Latin-1). On this range \<open>str.lower\<close> maps exactly the letters
  A..Z and the Latin-1 capitals 0xC0..0xDE (without the multiplication sign 0xD7) to the
  code point 32 higher, and \<open>str.strip\<close> without argument removes, on both ends, the
  characters for which \<open>str.isspace\<close> holds: 0x09..0x0D, 0x1C..0x20, 0x85 and 0xA0.
  Strings with code points above 255 are outside the model.
\<close>

definition is_upper :: "char \<Rightarrow> bool" where
  "is_upper c =
     (let n = (of_char c :: nat)
      in (65 \<le> n \<and> n \<le> 90) \<or> (192 \<le> n \<and> n \<le> 222 \<and> n \<noteq> 215))"

definition lower_char :: "char \<Rightarrow> char" where
  "lower_char c = (if is_upper c then char_of ((of_char c :: nat) + 32) else c)"

definition lower :: "string \<Rightarrow> string" where
  "lower s = map lower_char s"

definition is_space :: "char \<Rightarrow> bool" where
  "is_space c =
     (let n = (of_char c :: nat)
      in (9 \<le> n \<and> n \<le> 13) \<or> (28 \<le> n \<and> n \<le> 32) \<or> n = 133 \<or> n = 160)"

definition strip :: "string \<Rightarrow> string" where
  "strip s = rev (dropWhile is_space (rev (dropWhile is_space s)))"

section \<open>Data model\<close>

text \<open>
  A cell of a text column is a \<open>str\<close>, or it is missing: the CSV reader yields a
  float (NaN) for an empty cell, on which \<open>.lower()\<close> raises AttributeError.
\<close>

datatype cell = Str string | Missing

datatype error = AttributeError | KeyError string | ValueError

text \<open>
  A row of the data frame. The date and the amounts are not inspected by the
  categorisation, so their types are left open; further columns of the CSV live in the
  record's extension.
\<close>

record ('d, 'a) row =
  Date :: 'd
  Narration :: cell
  Withdrawal_Amt :: 'a
  Deposit_Amt :: 'a
  Category :: string

text \<open>
  The category store \<open>st.session_state.categories\<close> is a Python dict from category name
  to list of keywords. A dict iterates in insertion order, so it is an association list;
  its keys are distinct.
\<close>

type_synonym store = "(string \<times> string list) list"

definition wf_store :: "store \<Rightarrow> bool" where
  "wf_store m = distinct (map fst m)"

text \<open>
  The state the functions share: the dict in the session state and the contents of the
  file \<open>categories.json\<close> (\<open>None\<close> when the file does not exist).
\<close>

record state =
  categories :: store
  category_file :: "string option"

section \<open>categorize_transactions\<close>

text \<open>
  The inner loop \<open>for idx, row in df.iterrows()\<close> for one category: \<open>details\<close> is the
  lower-cased, stripped narration, and the row's category is overwritten when \<open>details\<close>
  is an element of \<open>lowered_keywords\<close>.
\<close>

fun apply_category ::
  "string \<Rightarrow> string list \<Rightarrow> ('d, 'a, 'z) row_scheme list \<Rightarrow> error + ('d, 'a, 'z) row_scheme list"
where
  "apply_category category lowered_keywords [] = Inr []"
| "apply_category category lowered_keywords (r # rs) =
     (case Narration r of
        Missing \<Rightarrow> Inl AttributeError
      | Str narration \<Rightarrow>
          (let details = strip (lower narration);
               r' = (if details \<in> set lowered_keywords then r\<lparr>Category := category\<rparr> else r)
           in case apply_category category lowered_keywords rs of
                Inl e \<Rightarrow> Inl e
              | Inr rs' \<Rightarrow> Inr (r' # rs')))"

text \<open>
  The outer loop \<open>for category, keywords in st.session_state.categories.items()\<close>, with
  its \<open>continue\<close> for the reserved name and for an empty keyword list.
\<close>

fun apply_categories ::
  "store \<Rightarrow> ('d, 'a, 'z) row_scheme list \<Rightarrow> error + ('d, 'a, 'z) row_scheme list"
where
  "apply_categories [] df = Inr df"
| "apply_categories ((category, keywords) # rest) df =
     (if category = ''Uncategorized'' \<or> keywords = [] then apply_categories rest df
      else
        (let lowered_keywords = map (\<lambda>keyword. strip (lower keyword)) keywords
         in case apply_category category lowered_keywords df of
              Inl e \<Rightarrow> Inl e
            | Inr df' \<Rightarrow> apply_categories rest df'))"

text \<open>
  \<open>categorize_transactions\<close> first sets the whole column to \<open>Uncategorized\<close>, then runs
  the loops. It reads the session state and does not write it; the state is returned
  next to the result.
\<close>

definition categorize_transactions ::
  "state \<Rightarrow> ('d, 'a, 'z) row_scheme list \<Rightarrow> (error + ('d, 'a, 'z) row_scheme list) \<times> state"
where
  "categorize_transactions st df =
     (apply_categories (categories st) (map (\<lambda>r. r\<lparr>Category := ''Uncategorized''\<rparr>) df), st)"

subsection \<open>Vocabulary of the categorisation claims\<close>

text \<open>
  The specification's words, as definitions to compare the loops with: a narration
  matches a keyword list when its cleaned form equals the cleaned form of one of the
  keywords; the matching categories of a narration are listed in the store's iteration
  order.
\<close>

definition matches :: "string \<Rightarrow> string list \<Rightarrow> bool" where
  "matches narration keywords =
     (strip (lower narration) \<in> set (map (\<lambda>keyword. strip (lower keyword)) keywords))"

definition matching_categories :: "store \<Rightarrow> string \<Rightarrow> string list" where
  "matching_categories cats narration =
     map fst (filter (\<lambda>(c, kws). c \<noteq> ''Uncategorized'' \<and> matches narration kws) cats)"

definition first_matching_category :: "store \<Rightarrow> string \<Rightarrow> string" where
  "first_matching_category cats narration =
     (case matching_categories cats narration of [] \<Rightarrow> ''Uncategorized'' | c # cs \<Rightarrow> c)"

definition last_matching_category :: "store \<Rightarrow> string \<Rightarrow> string" where
  "last_matching_category cats narration =
     (case matching_categories cats narration of
        [] \<Rightarrow> ''Uncategorized''
      | c # cs \<Rightarrow> last (c # cs))"

text \<open>Auxiliary functions of the proofs: one row through one category, and through all.\<close>

definition assign ::
  "string \<Rightarrow> string list \<Rightarrow> ('d, 'a, 'z) row_scheme \<Rightarrow> ('d, 'a, 'z) row_scheme"
where
  "assign c lk r =
     (case Narration r of
        Missing \<Rightarrow> r
      | Str n \<Rightarrow> if strip (lower n) \<in> set lk then r\<lparr>Category := c\<rparr> else r)"

fun pass :: "store \<Rightarrow> string \<Rightarrow> string \<Rightarrow> string" where
  "pass [] n cur = cur"
| "pass ((c, kws) # rest) n cur =
     pass rest n (if c \<noteq> ''Uncategorized'' \<and> matches n kws then c else cur)"

definition settle :: "store \<Rightarrow> ('d, 'a, 'z) row_scheme \<Rightarrow> ('d, 'a, 'z) row_scheme" where
  "settle cats r =
     (case Narration r of
        Missing \<Rightarrow> r
      | Str n \<Rightarrow> r\<lparr>Category := pass cats n (Category r)\<rparr>)"

subsection \<open>Example data\<close>

definition demo_store :: store where
  "demo_store =
     [(''Uncategorized'', []), (''Shopping'', [''Amazon'']), (''Subscriptions'', [''amazon''])]"

definition demo_state :: state where
  "demo_state = \<lparr>categories = demo_store, category_file = None\<rparr>"

definition demo_row :: "(nat \<times> nat \<times> nat, rat) row" where
  "demo_row =
     \<lparr>Date = (1, 4, 23), Narration = Str ''  amazon  '', Withdrawal_Amt = 500,
      Deposit_Amt = 0, Category = ''''\<rparr>"

section \<open>The persisted store: json.dump and json.load\<close>

text \<open>
  \<open>save_categories\<close> writes the dict with \<open>json.dump\<close> and the start of the script
  reads it back with \<open>json.load\<close>. Both are modelled on the values the store holds, a
  dict from strings to lists of strings. \<open>json.dump\<close> with its defaults separates items
  by a comma and a blank, keys from values by a colon and a blank, and writes a string
  between double quotes with the escapes of \<open>ensure_ascii\<close>: the two-character escapes
  for quote, backslash, backspace, form feed, newline, carriage return and tab, the
  characters from blank to tilde as they are, and every other one as a backslash, the
  letter u and four lower-case hexadecimal digits.
\<close>

definition hex_digit :: "nat \<Rightarrow> char" where
  "hex_digit n = (if n < 10 then char_of (48 + n) else char_of (87 + n))"

definition escape_char :: "char \<Rightarrow> string" where
  "escape_char c =
     (if c = CHR 0x22 then [CHR 0x5C, CHR 0x22]
      else if c = CHR 0x5C then [CHR 0x5C, CHR 0x5C]
      else if c = CHR 0x0A then [CHR 0x5C, CHR ''n'']
      else if c = CHR 0x0D then [CHR 0x5C, CHR ''r'']
      else if c = CHR 0x09 then [CHR 0x5C, CHR ''t'']
      else if c = CHR 0x0C then [CHR 0x5C, CHR ''f'']
      else if c = CHR 0x08 then [CHR 0x5C, CHR ''b'']
      else
        (let n = (of_char c :: nat)
         in if 32 \<le> n \<and> n \<le> 126 then [c]
            else [CHR 0x5C, CHR ''u'', CHR ''0'', CHR ''0'',
                  hex_digit (n div 16), hex_digit (n mod 16)]))"

definition encode_string :: "string \<Rightarrow> string" where
  "encode_string s = CHR 0x22 # concat (map escape_char s) @ [CHR 0x22]"

fun join :: "string \<Rightarrow> string list \<Rightarrow> string" where
  "join sep [] = []"
| "join sep [x] = x"
| "join sep (x # y # ys) = x @ sep @ join sep (y # ys)"

definition encode_list :: "string list \<Rightarrow> string" where
  "encode_list vs = ''['' @ join '', '' (map encode_string vs) @ '']''"

definition encode_item :: "string \<times> string list \<Rightarrow> string" where
  "encode_item kv = encode_string (fst kv) @ '': '' @ encode_list (snd kv)"

definition json_dump :: "store \<Rightarrow> string" where
  "json_dump m = ''{'' @ join '', '' (map encode_item m) @ ''}''"

text \<open>
  The decoder follows \<open>json.decoder\<close>: white space is blank, tab, newline and carriage
  return; \<open>scanstring\<close> reads a string from behind its opening quote and returns it with
  the rest of the text. It refuses a raw control character and an unknown escape. An
  escape for a code point above 255 is outside the model and is refused too.
\<close>

definition is_ws :: "char \<Rightarrow> bool" where
  "is_ws c = (c = CHR '' '' \<or> c = CHR 0x09 \<or> c = CHR 0x0A \<or> c = CHR 0x0D)"

definition skip_ws :: "string \<Rightarrow> string" where
  "skip_ws s = dropWhile is_ws s"

definition hex_val :: "char \<Rightarrow> nat option" where
  "hex_val c =
     (let n = (of_char c :: nat)
      in if 48 \<le> n \<and> n \<le> 57 then Some (n - 48)
         else if 97 \<le> n \<and> n \<le> 102 then Some (n - 87)
         else if 65 \<le> n \<and> n \<le> 70 then Some (n - 55)
         else None)"

definition decode_uXXXX :: "char \<Rightarrow> char \<Rightarrow> char \<Rightarrow> char \<Rightarrow> char option" where
  "decode_uXXXX h1 h2 h3 h4 =
     (case (hex_val h1, hex_val h2, hex_val h3, hex_val h4) of
        (Some a, Some b, Some c, Some d) \<Rightarrow>
          (let n = ((a * 16 + b) * 16 + c) * 16 + d
           in if n < 256 then Some (char_of n) else None)
      | _ \<Rightarrow> None)"

definition unescape :: "char \<Rightarrow> char option" where
  "unescape e =
     (if e = CHR 0x22 then Some (CHR 0x22)
      else if e = CHR 0x5C then Some (CHR 0x5C)
      else if e = CHR ''/'' then Some (CHR ''/'')
      else if e = CHR ''b'' then Some (CHR 0x08)
      else if e = CHR ''f'' then Some (CHR 0x0C)
      else if e = CHR ''n'' then Some (CHR 0x0A)
      else if e = CHR ''r'' then Some (CHR 0x0D)
      else if e = CHR ''t'' then Some (CHR 0x09)
      else None)"

fun scanstring :: "string \<Rightarrow> (string \<times> string) option" where
  "scanstring [] = None"
| "scanstring (c # cs) =
     (if c = CHR 0x22 then Some ([], cs)
      else if c = CHR 0x5C then
        (case cs of
           [] \<Rightarrow> None
         | e # cs' \<Rightarrow>
             if e = CHR ''u'' then
               (case cs' of
                  h1 # h2 # h3 # h4 # rest \<Rightarrow>
                    (case decode_uXXXX h1 h2 h3 h4 of
                       None \<Rightarrow> None
                     | Some ch \<Rightarrow>
                         (case scanstring rest of
                            None \<Rightarrow> None
                          | Some (s, r) \<Rightarrow> Some (ch # s, r)))
                | _ \<Rightarrow> None)
             else
               (case unescape e of
                  None \<Rightarrow> None
                | Some ch \<Rightarrow>
                    (case scanstring cs' of
                       None \<Rightarrow> None
                     | Some (s, r) \<Rightarrow> Some (ch # s, r))))
      else if (of_char c :: nat) < 32 then None
      else
        (case scanstring cs of
           None \<Rightarrow> None
         | Some (s, r) \<Rightarrow> Some (c # s, r)))"

text \<open>JSONArray: the elements after the opening bracket, each of them a string.\<close>

function parse_elements :: "string \<Rightarrow> (string list \<times> string) option" where
  "parse_elements s =
     (case s of
        [] \<Rightarrow> None
      | c # cs \<Rightarrow>
          if c \<noteq> CHR 0x22 then None
          else
            (case scanstring cs of
               None \<Rightarrow> None
             | Some (v, r) \<Rightarrow>
                 (case skip_ws r of
                    [] \<Rightarrow> None
                  | d # r' \<Rightarrow>
                      if d = CHR '']'' then Some ([v], r')
                      else if d = CHR '','' then
                        (case parse_elements (skip_ws r') of
                           None \<Rightarrow> None
                         | Some (vs, r'') \<Rightarrow> Some (v # vs, r''))
                      else None)))"
  by pat_completeness auto
termination
proof (relation "measure length")
  show "wf (measure length)" by simp
next
  fix s c cs x v r d r'
  assume s: "s = c # cs" and sc: "scanstring cs = Some x" and x: "(v, r) = x"
    and sk: "skip_ws r = d # r'"
  have scan: "\<And>t w u. scanstring t = Some (w, u) \<Longrightarrow> length u < length t"
  proof -
    fix t w u
    show "scanstring t = Some (w, u) \<Longrightarrow> length u < length t"
      by (induction t arbitrary: w u rule: scanstring.induct)
         (fastforce split: if_splits list.splits option.splits)+
  qed
  have "length (skip_ws r') \<le> length r'"
    by (simp add: skip_ws_def length_dropWhile_le)
  moreover have "length (d # r') \<le> length r"
    using sk[symmetric] by (simp add: skip_ws_def length_dropWhile_le)
  moreover have "length r < length cs" using scan sc x by auto
  ultimately show "(skip_ws r', s) \<in> measure length" using s by simp
qed

declare parse_elements.simps [simp del]

definition parse_array :: "string \<Rightarrow> (string list \<times> string) option" where
  "parse_array s =
     (case skip_ws s of
        [] \<Rightarrow> None
      | c # cs \<Rightarrow> if c = CHR '']'' then Some ([], cs) else parse_elements (c # cs))"

text \<open>
  JSONObject: the members after the opening brace, from the quote of a key on. Each value
  is an array of strings.
\<close>

function parse_members :: "string \<Rightarrow> ((string \<times> string list) list \<times> string) option" where
  "parse_members s =
     (case s of
        [] \<Rightarrow> None
      | c # cs \<Rightarrow>
          if c \<noteq> CHR 0x22 then None
          else
            (case scanstring cs of
               None \<Rightarrow> None
             | Some (key, r) \<Rightarrow>
                 (case skip_ws r of
                    [] \<Rightarrow> None
                  | d # r1 \<Rightarrow>
                      if d \<noteq> CHR '':'' then None
                      else
                        (case skip_ws r1 of
                           [] \<Rightarrow> None
                         | b # r2 \<Rightarrow>
                             if b \<noteq> CHR ''['' then None
                             else
                               (case parse_array r2 of
                                  None \<Rightarrow> None
                                | Some (val, r3) \<Rightarrow>
                                    (case skip_ws r3 of
                                       [] \<Rightarrow> None
                                     | e # r4 \<Rightarrow>
                                         if e = CHR ''}'' then Some ([(key, val)], r4)
                                         else if e = CHR '','' then
                                           (case parse_members (skip_ws r4) of
                                              None \<Rightarrow> None
                                            | Some (ps, r5) \<Rightarrow> Some ((key, val) # ps, r5))
                                         else None))))))"
  by pat_completeness auto
termination
proof (relation "measure length")
  show "wf (measure length)" by simp
next
  fix s :: string and c cs x key r d r1 b r2 y val r3 e r4
  assume s: "s = c # cs" and sc: "scanstring cs = Some x" and x: "(key, r) = x"
    and sk1: "skip_ws r = d # r1" and sk2: "skip_ws r1 = b # r2"
    and pa: "parse_array r2 = Some y" and y: "(val, r3) = y"
    and sk3: "skip_ws r3 = e # r4"
  have ws: "\<And>t. length (skip_ws t) \<le> length t"
    by (simp add: skip_ws_def length_dropWhile_le)
  have scan: "\<And>t w u. scanstring t = Some (w, u) \<Longrightarrow> length u < length t"
  proof -
    fix t w u
    show "scanstring t = Some (w, u) \<Longrightarrow> length u < length t"
      by (induction t arbitrary: w u rule: scanstring.induct)
         (fastforce split: if_splits list.splits option.splits)+
  qed
  have elems: "\<And>t w u. parse_elements t = Some (w, u) \<Longrightarrow> length u < length t"
  proof -
    fix t w u
    show "parse_elements t = Some (w, u) \<Longrightarrow> length u < length t"
    proof (induction t arbitrary: w u rule: parse_elements.induct)
      case (1 t)
      from "1.prems" obtain q qs v r' d' r'' where t: "t = q # qs" and q: "q = CHR 0x22"
        and v: "scanstring qs = Some (v, r')" and d: "skip_ws r' = d' # r''"
        by (subst (asm) parse_elements.simps)
           (auto split: list.splits if_splits option.splits)
      have l1: "length r' < length qs" using scan[OF v] .
      have l2: "length (d' # r'') \<le> length r'" using ws[of r'] d by simp
      show ?case
      proof (cases "d' = CHR '']''")
        case True
        with "1.prems" t q v d have "u = r''"
          by (subst (asm) parse_elements.simps) simp
        with l1 l2 t show ?thesis by simp
      next
        case False
        with "1.prems" t q v d obtain vs where c: "d' = CHR '',''"
          and rec: "parse_elements (skip_ws r'') = Some (vs, u)"
          by (subst (asm) parse_elements.simps)
             (auto split: if_splits option.splits)
        have nq: "\<not> q \<noteq> CHR 0x22" using q by simp
        have "length u < length (skip_ws r'')"
          by (rule "1.IH"[OF t nq v refl d False c rec])
        with ws[of r''] l1 l2 t show ?thesis by simp
      qed
    qed
  qed
  have "length r < length cs" using scan sc x by auto
  moreover have "length (b # r2) \<le> length r1" using ws[of r1] sk2 by simp
  moreover have "length (d # r1) \<le> length r" using ws[of r] sk1 by simp
  moreover have "length r3 \<le> length r2"
    using pa y elems ws[of r2]
    by (fastforce simp: parse_array_def split: list.splits if_splits)
  moreover have "length (e # r4) \<le> length r3" using ws[of r3] sk3 by simp
  ultimately show "(skip_ws r4, s) \<in> measure length" using s ws[of r4] by simp
qed

declare parse_members.simps [simp del]

definition parse_object :: "string \<Rightarrow> ((string \<times> string list) list \<times> string) option" where
  "parse_object s =
     (case skip_ws s of
        [] \<Rightarrow> None
      | c # cs \<Rightarrow> if c = CHR ''}'' then Some ([], cs) else parse_members (c # cs))"

text \<open>A dict as an association list: \<open>k in d\<close>, \<open>d[k]\<close>, \<open>d[k] = v\<close> and \<open>dict(pairs)\<close>.\<close>

fun dict_set :: "store \<Rightarrow> string \<Rightarrow> string list \<Rightarrow> store" where
  "dict_set [] k v = [(k, v)]"
| "dict_set ((k', v') # m) k v =
     (if k' = k then (k, v) # m else (k', v') # dict_set m k v)"

definition dict_of :: "(string \<times> string list) list \<Rightarrow> store" where
  "dict_of pairs = foldl (\<lambda>d (k, v). dict_set d k v) [] pairs"

text \<open>
  \<open>json.load\<close> on a text: \<open>None\<close> when the text is not the JSON form of a dict from
  strings to lists of strings (then \<open>json.load\<close> raises JSONDecodeError, or returns a
  value of another shape, which is outside the model).
\<close>

definition json_load :: "string \<Rightarrow> store option" where
  "json_load text =
     (case skip_ws text of
        [] \<Rightarrow> None
      | c # cs \<Rightarrow>
          if c \<noteq> CHR ''{'' then None
          else
            (case parse_object cs of
               None \<Rightarrow> None
             | Some (pairs, r) \<Rightarrow> if skip_ws r = [] then Some (dict_of pairs) else None))"

section \<open>The category store\<close>

text \<open>\<open>save_categories\<close> overwrites the file with the dump of the dict in the session.\<close>

definition save_categories :: "state \<Rightarrow> state" where
  "save_categories st = st\<lparr>category_file := Some (json_dump (categories st))\<rparr>"

text \<open>
  The start of the script. The session gets the default dict when it has none, and the
  dict read from the file replaces it when the file exists. \<open>None\<close> stands for a file
  that \<open>json_load\<close> does not read.
\<close>

definition startup :: "store option \<Rightarrow> string option \<Rightarrow> state option" where
  "startup session file =
     (let cats = (case session of None \<Rightarrow> [(''Uncategorized'', [])] | Some m \<Rightarrow> m)
      in case file of
           None \<Rightarrow> Some \<lparr>categories = cats, category_file = None\<rparr>
         | Some text \<Rightarrow>
             (case json_load text of
                None \<Rightarrow> None
              | Some m \<Rightarrow> Some \<lparr>categories = m, category_file = Some text\<rparr>))"

text \<open>
  \<open>add_keyword_to_category\<close>. The condition \<open>keyword and keyword not in ...[category]\<close>
  is evaluated from the left: the dict is indexed, and KeyError raised for an unknown
  category, only when the stripped keyword is not empty. The result is the returned value
  or the exception, next to the state after the call.
\<close>

definition add_keyword_to_category :: "string \<Rightarrow> string \<Rightarrow> state \<Rightarrow> (error + bool) \<times> state" where
  "add_keyword_to_category category keyword0 st =
     (let keyword = strip keyword0
      in if keyword = [] then (Inr False, st)
         else
           (case map_of (categories st) category of
              None \<Rightarrow> (Inl (KeyError category), st)
            | Some kws \<Rightarrow>
                if keyword \<in> set kws then (Inr False, st)
                else
                  (Inr True,
                   save_categories
                     (st\<lparr>categories := dict_set (categories st) category (kws @ [keyword])\<rparr>))))"

text \<open>
  The block of \<open>main\<close> behind the \<open>Add Category\<close> button. It raises nothing; the
  returned flag says whether the entry was inserted, which is when the script calls
  \<open>st.rerun()\<close>.
\<close>

definition add_category :: "bool \<Rightarrow> string \<Rightarrow> state \<Rightarrow> (error + bool) \<times> state" where
  "add_category add_button new_category st =
     (if add_button \<and> new_category \<noteq> [] then
        (if new_category \<notin> set (map fst (categories st)) then
           (Inr True,
            save_categories (st\<lparr>categories := dict_set (categories st) new_category []\<rparr>))
         else (Inr False, st))
      else (Inr False, st))"

section \<open>Amount columns of load_transactions\<close>

text \<open>
  The value of a float: a finite number, an infinity or NaN. \<open>Finite q\<close> stands for the
  double nearest to the rational \<open>q\<close>, which is finite: the conversion gives an infinity
  from \<open>2 ^ 1024 - 2 ^ 970\<close> on, the middle between the largest double and \<open>2 ^ 1024\<close>.
  Rounding below that bound and the sign of zero are not modelled.
\<close>

datatype float_value = Finite rat | PosInf | NegInf | NaN

definition overflow_bound :: rat where
  "overflow_bound = 2 ^ 1024 - 2 ^ 970"

definition finite_or_inf :: "rat \<Rightarrow> float_value" where
  "finite_or_inf q =
     (if overflow_bound \<le> q then PosInf
      else if q \<le> - overflow_bound then NegInf
      else Finite q)"

text \<open>
  \<open>float(text)\<close> of Python, which \<open>astype(float)\<close> applies to a string. White space on
  both ends is stripped; for \<open>float\<close> that is 0x09..0x0D, the blank, 0x85 and 0xA0, but
  not 0x1C..0x1F, which \<open>str.strip\<close> removes. Then an optional sign is followed by
  \<open>inf\<close>, \<open>infinity\<close> or \<open>nan\<close> in any letter case, or by a decimal number with
  optional fraction and exponent. Digits may be grouped by single underscores. Anything
  else raises ValueError.
\<close>

definition is_float_space :: "char \<Rightarrow> bool" where
  "is_float_space c =
     (let n = (of_char c :: nat)
      in (9 \<le> n \<and> n \<le> 13) \<or> n = 32 \<or> n = 133 \<or> n = 160)"

definition float_strip :: "string \<Rightarrow> string" where
  "float_strip s = rev (dropWhile is_float_space (rev (dropWhile is_float_space s)))"

definition is_digit :: "char \<Rightarrow> bool" where
  "is_digit c = (let n = (of_char c :: nat) in 48 \<le> n \<and> n \<le> 57)"

definition digit_val :: "char \<Rightarrow> int" where
  "digit_val c = of_char c - 48"

definition int_of_digits :: "string \<Rightarrow> int" where
  "int_of_digits ds = foldl (\<lambda>n c. 10 * n + digit_val c) 0 ds"

text \<open>The rest of a digit part behind its first digit: digits, each after at most one underscore.\<close>

fun more_digits :: "string \<Rightarrow> string \<times> string" where
  "more_digits [] = ([], [])"
| "more_digits (c # cs) =
     (if is_digit c then (case more_digits cs of (ds, r) \<Rightarrow> (c # ds, r))
      else if c = CHR ''_'' then
        (case cs of
           [] \<Rightarrow> ([], c # cs)
         | d # cs' \<Rightarrow>
             if is_digit d then (case more_digits cs' of (ds, r) \<Rightarrow> (d # ds, r))
             else ([], c # cs))
      else ([], c # cs))"

definition digitpart :: "string \<Rightarrow> (string \<times> string) option" where
  "digitpart s =
     (case s of
        [] \<Rightarrow> None
      | c # cs \<Rightarrow>
          if is_digit c then (case more_digits cs of (ds, r) \<Rightarrow> Some (c # ds, r)) else None)"

definition split_sign :: "string \<Rightarrow> bool \<times> string" where
  "split_sign s =
     (case s of
        [] \<Rightarrow> (False, [])
      | c # cs \<Rightarrow>
          if c = CHR ''-'' then (True, cs) else if c = CHR ''+'' then (False, cs) else (False, s))"

text \<open>
  The mantissa: its digits without the point, the number of digits behind the point, and
  the rest of the text.
\<close>

definition mantissa :: "string \<Rightarrow> (string \<times> nat \<times> string) option" where
  "mantissa s =
     (case digitpart s of
        Some (ip, r) \<Rightarrow>
          (case r of
             [] \<Rightarrow> Some (ip, 0, [])
           | c # r' \<Rightarrow>
               if c = CHR ''.'' then
                 (case digitpart r' of
                    None \<Rightarrow> Some (ip, 0, r')
                  | Some (fp, r'') \<Rightarrow> Some (ip @ fp, length fp, r''))
               else Some (ip, 0, r))
      | None \<Rightarrow>
          (case s of
             [] \<Rightarrow> None
           | c # r' \<Rightarrow>
               if c = CHR ''.'' then
                 (case digitpart r' of
                    None \<Rightarrow> None
                  | Some (fp, r'') \<Rightarrow> Some (fp, length fp, r''))
               else None))"

definition exponent :: "string \<Rightarrow> int option" where
  "exponent s =
     (case s of
        [] \<Rightarrow> Some 0
      | c # r \<Rightarrow>
          if c = CHR ''e'' \<or> c = CHR ''E'' then
            (case split_sign r of
               (neg, r') \<Rightarrow>
                 (case digitpart r' of
                    None \<Rightarrow> None
                  | Some (ds, r'') \<Rightarrow>
                      if r'' = [] then
                        Some (if neg then - int_of_digits ds else int_of_digits ds)
                      else None))
          else None)"

definition decimal :: "string \<Rightarrow> rat option" where
  "decimal s =
     (case mantissa s of
        None \<Rightarrow> None
      | Some (ds, fd, r) \<Rightarrow>
          (case exponent r of
             None \<Rightarrow> None
           | Some e \<Rightarrow>
               (let k = e - int fd
                in Some (if 0 \<le> k then of_int (int_of_digits ds) * 10 ^ nat k
                         else of_int (int_of_digits ds) / 10 ^ nat (- k)))))"

definition py_float :: "string \<Rightarrow> error + float_value" where
  "py_float text =
     (case split_sign (float_strip text) of
        (neg, u) \<Rightarrow>
          if lower u = ''inf'' \<or> lower u = ''infinity'' then Inr (if neg then NegInf else PosInf)
          else if lower u = ''nan'' then Inr NaN
          else
            (case decimal u of
               None \<Rightarrow> Inl ValueError
             | Some q \<Rightarrow> Inr (finite_or_inf (if neg then - q else q))))"

text \<open>
  What \<open>load_transactions\<close> does to a cell of an amount column. \<open>.astype(str)\<close> leaves
  a str as it is and makes the text \<open>nan\<close> of the float NaN, which the CSV reader has put
  for an empty cell and for its other markers of a missing value. (A column that the
  reader has read as numbers holds floats; their texts are not modelled.)
  \<open>.str.replace(",", "")\<close> deletes every comma; \<open>.replace(["", "nan", "NaN"], 0)\<close>
  replaces a cell that is equal to one of the three texts by the integer 0;
  \<open>.astype(float)\<close> converts the integer or parses the text.
\<close>

definition astype_str :: "cell \<Rightarrow> string" where
  "astype_str v = (case v of Str s \<Rightarrow> s | Missing \<Rightarrow> ''nan'')"

definition str_replace_comma :: "string \<Rightarrow> string" where
  "str_replace_comma s = filter (\<lambda>c. c \<noteq> CHR '','') s"

definition replace_values :: "string \<Rightarrow> int + string" where
  "replace_values s = (if s \<in> set ['''', ''nan'', ''NaN''] then Inl 0 else Inr s)"

definition astype_float :: "int + string \<Rightarrow> error + float_value" where
  "astype_float v = (case v of Inl n \<Rightarrow> Inr (Finite (of_int n)) | Inr s \<Rightarrow> py_float s)"

definition clean_amount :: "cell \<Rightarrow> error + float_value" where
  "clean_amount v = astype_float (replace_values (str_replace_comma (astype_str v)))"

section \<open>The summary tables of main\<close>

text \<open>
  \<open>df.groupby("Category")[column].sum().reset_index()\<close> gives one line per category that
  occurs in the table, in ascending order of the category names, with the sum of the
  column over the rows of that category. \<open>sort_values(column, ascending=False)\<close> then
  orders the lines by descending total. Amounts are exact numbers of a linearly ordered
  group here; the rounding of float addition and NaN amounts are not modelled. For equal
  totals pandas promises no order; the model keeps the order of the groups.
\<close>

definition groupby_sum ::
  "(('d, 'a, 'z) row_scheme \<Rightarrow> 'b::linordered_ab_group_add) \<Rightarrow> ('d, 'a, 'z) row_scheme list
     \<Rightarrow> (string \<times> 'b) list"
where
  "groupby_sum column df =
     map (\<lambda>c. (c, sum_list (map column (filter (\<lambda>r. Category r = c) df))))
       (sort (remdups (map Category df)))"

definition sort_values_desc :: "(string \<times> 'b::linordered_ab_group_add) list \<Rightarrow> (string \<times> 'b) list" where
  "sort_values_desc xs = sort_key (\<lambda>p. - snd p) xs"

definition category_totals ::
  "(('d, 'a, 'z) row_scheme \<Rightarrow> 'b::linordered_ab_group_add) \<Rightarrow> ('d, 'a, 'z) row_scheme list
     \<Rightarrow> (string \<times> 'b) list"
where
  "category_totals column df = sort_values_desc (groupby_sum column df)"

definition food_rows :: "(nat \<times> nat \<times> nat, rat) row list" where
  "food_rows =
     [\<lparr>Date = (1, 4, 23), Narration = Str ''lunch'', Withdrawal_Amt = 100, Deposit_Amt = 0,
       Category = ''Food''\<rparr>,
      \<lparr>Date = (2, 4, 23), Narration = Str ''bus'', Withdrawal_Amt = 30, Deposit_Amt = 0,
       Category = ''Transport''\<rparr>,
      \<lparr>Date = (3, 4, 23), Narration = Str ''dinner'', Withdrawal_Amt = 50, Deposit_Amt = 0,
       Category = ''Food''\<rparr>]"

section \<open>Properties of categorize_transactions\<close>

lemma apply_category_Inr:
  "apply_category c lk df = Inr df' \<Longrightarrow>
     df' = map (assign c lk) df \<and> (\<forall>r\<in>set df. Narration r \<noteq> Missing)"
  by (induction df arbitrary: df')
     (auto simp: assign_def Let_def split: cell.splits sum.splits)

lemma apply_category_text:
  "\<forall>r\<in>set df. Narration r \<noteq> Missing \<Longrightarrow>
   apply_category c lk df = Inr (map (assign c lk) df)"
  by (induction df) (auto simp: assign_def Let_def split: cell.splits sum.splits)

lemma Narration_assign [simp]: "Narration (assign c lk r) = Narration r"
  by (simp add: assign_def split: cell.splits)

lemma matches_Nil [simp]: "\<not> matches n []"
  by (simp add: matches_def)

lemma settle_Nil [simp]: "settle [] r = r"
  by (simp add: settle_def split: cell.splits)

lemma settle_skip:
  "c = ''Uncategorized'' \<or> kws = [] \<Longrightarrow> settle ((c, kws) # rest) r = settle rest r"
  by (auto simp: settle_def split: cell.splits)

lemma settle_step:
  "c \<noteq> ''Uncategorized'' \<Longrightarrow>
   settle ((c, kws) # rest) r =
     settle rest (assign c (map (\<lambda>keyword. strip (lower keyword)) kws) r)"
  by (auto simp: settle_def assign_def matches_def split: cell.splits)

lemma apply_categories_Inr:
  "apply_categories cats df = Inr df' \<Longrightarrow> df' = map (settle cats) df"
proof (induction cats df arbitrary: df' rule: apply_categories.induct)
  case (1 df)
  then show ?case by (simp add: map_idI)
next
  case (2 category kws rest df)
  show ?case
  proof (cases "category = ''Uncategorized'' \<or> kws = []")
    case True
    with 2 show ?thesis by (simp add: settle_skip)
  next
    case False
    let ?lk = "map (\<lambda>keyword. strip (lower keyword)) kws"
    from False 2(3) obtain d where d: "apply_category category ?lk df = Inr d"
      and r: "apply_categories rest d = Inr df'"
      by (auto simp: Let_def split: sum.splits)
    from apply_category_Inr[OF d] have "d = map (assign category ?lk) df" by simp
    moreover from 2(2)[OF False refl d r] have "df' = map (settle rest) d" .
    ultimately show ?thesis using False by (simp add: settle_step)
  qed
qed

lemma apply_categories_text:
  "\<forall>r\<in>set df. Narration r \<noteq> Missing \<Longrightarrow> \<exists>df'. apply_categories cats df = Inr df'"
proof (induction cats df rule: apply_categories.induct)
  case (1 df)
  then show ?case by simp
next
  case (2 category kws rest df)
  show ?case
  proof (cases "category = ''Uncategorized'' \<or> kws = []")
    case True
    with 2 show ?thesis by simp
  next
    case False
    let ?lk = "map (\<lambda>keyword. strip (lower keyword)) kws"
    have d: "apply_category category ?lk df = Inr (map (assign category ?lk) df)"
      using 2(3) by (rule apply_category_text)
    have "\<forall>r\<in>set (map (assign category ?lk) df). Narration r \<noteq> Missing"
      using 2(3) by simp
    from 2(2)[OF False refl d this] show ?thesis using False d by (simp add: Let_def)
  qed
qed

lemma pass_matching:
  "pass cats n cur =
     (case matching_categories cats n of [] \<Rightarrow> cur | c # cs \<Rightarrow> last (c # cs))"
  by (induction cats n cur rule: pass.induct)
     (auto simp: matching_categories_def split: list.splits)

lemma pass_cases: "pass cats n cur = cur \<or> pass cats n cur \<in> fst ` set cats"
  by (induction cats n cur rule: pass.induct) (auto simp: image_iff, force+)

lemma categorize_Inr:
  "fst (categorize_transactions st df) = Inr df' \<Longrightarrow>
   df' = map (\<lambda>r. settle (categories st) (r\<lparr>Category := ''Uncategorized''\<rparr>)) df"
  by (auto simp: categorize_transactions_def dest: apply_categories_Inr)

lemma categorize_text:
  "\<forall>r\<in>set df. Narration r \<noteq> Missing \<Longrightarrow>
   \<exists>df'. fst (categorize_transactions st df) = Inr df'"
  by (simp add: categorize_transactions_def apply_categories_text)

lemma settle_reset_text:
  "Narration r = Str n \<Longrightarrow>
   settle cats (r\<lparr>Category := ''Uncategorized''\<rparr>) =
     r\<lparr>Category := last_matching_category cats n\<rparr>"
  by (simp add: settle_def pass_matching last_matching_category_def)

lemma settle_frame: "settle cats r = r\<lparr>Category := Category (settle cats r)\<rparr>"
  by (simp add: settle_def split: cell.splits)

lemma Category_settle_reset:
  "Category (settle cats (r\<lparr>Category := ''Uncategorized''\<rparr>)) = ''Uncategorized'' \<or>
   Category (settle cats (r\<lparr>Category := ''Uncategorized''\<rparr>)) \<in> fst ` set cats"
  using pass_cases[of cats _ "''Uncategorized''"]
  by (auto simp: settle_def split: cell.splits)

text \<open>
  Claim C1, as the specification states it, says that the first matching category wins.
  The loops overwrite instead: in the example store the narration matches \<open>Shopping\<close>
  first and \<open>Subscriptions\<close> after it, and the row ends in \<open>Subscriptions\<close>.
\<close>

theorem C1_first_match_counterexample:
  "fst (categorize_transactions demo_state [demo_row]) =
     Inr [demo_row\<lparr>Category := ''Subscriptions''\<rparr>] \<and>
   first_matching_category (categories demo_state) ''  amazon  '' = ''Shopping''"
  by code_simp

text \<open>
  Claim C1, amended: categorize_transactions evaluates the categories in their stored
  iteration order and the last category with a keyword matching a row's cleaned narration
  wins: a category evaluated later in the same pass overrides an earlier match, and a row
  that matches none is \<open>Uncategorized\<close>. The function returns on every table whose
  narrations are text.
\<close>

theorem C1_last_match_wins:
  "((\<forall>r\<in>set df. Narration r \<noteq> Missing) \<longrightarrow>
      (\<exists>df'. fst (categorize_transactions st df) = Inr df')) \<and>
   (fst (categorize_transactions st df) = Inr df' \<longrightarrow>
      length df' = length df \<and>
      (\<forall>i<length df. \<forall>n. Narration (df ! i) = Str n \<longrightarrow>
         Category (df' ! i) = last_matching_category (categories st) n))"
proof (intro conjI impI allI)
  assume "\<forall>r\<in>set df. Narration r \<noteq> Missing"
  then show "\<exists>df'. fst (categorize_transactions st df) = Inr df'" by (rule categorize_text)
next
  assume "fst (categorize_transactions st df) = Inr df'"
  then show "length df' = length df" by (auto dest: categorize_Inr)
next
  fix i n
  assume r: "fst (categorize_transactions st df) = Inr df'" and i: "i < length df"
    and n: "Narration (df ! i) = Str n"
  from categorize_Inr[OF r] i
  have "df' ! i = settle (categories st) ((df ! i)\<lparr>Category := ''Uncategorized''\<rparr>)" by simp
  with n show "Category (df' ! i) = last_matching_category (categories st) n"
    by (simp add: settle_reset_text)
qed

theorem C1_last_match_wins_witness:
  "Narration demo_row \<noteq> Missing \<and>
   fst (categorize_transactions demo_state [demo_row]) =
     Inr [demo_row\<lparr>Category := ''Subscriptions''\<rparr>] \<and>
   (0::nat) < length [demo_row] \<and>
   Narration ([demo_row] ! 0) = Str ''  amazon  '' \<and>
   Category ([demo_row\<lparr>Category := ''Subscriptions''\<rparr>] ! 0) =
     last_matching_category (categories demo_state) ''  amazon  '' \<and>
   last_matching_category (categories demo_state) ''  amazon  '' = ''Subscriptions''"
proof -
  have h1: "\<forall>r\<in>set [demo_row]. Narration r \<noteq> Missing" by (simp add: demo_row_def)
  have h2: "fst (categorize_transactions demo_state [demo_row]) =
     Inr [demo_row\<lparr>Category := ''Subscriptions''\<rparr>]" by code_simp
  have h3: "Narration ([demo_row] ! 0) = Str ''  amazon  ''" by (simp add: demo_row_def)
  have h4: "last_matching_category (categories demo_state) ''  amazon  '' = ''Subscriptions''"
    by code_simp
  from C1_last_match_wins[of "[demo_row]" demo_state
      "[demo_row\<lparr>Category := ''Subscriptions''\<rparr>]"] h1 h2 h3 h4
  show ?thesis by simp
qed

text \<open>
  Claim C3: after categorize_transactions has run, the category of every row is
  \<open>Uncategorized\<close> or a key of the category store it ran with.
\<close>

theorem C3_category_in_store:
  "fst (categorize_transactions st df) = Inr df' \<Longrightarrow> r \<in> set df' \<Longrightarrow>
   Category r = ''Uncategorized'' \<or> Category r \<in> fst ` set (categories st)"
proof -
  assume a: "fst (categorize_transactions st df) = Inr df'" and r: "r \<in> set df'"
  from categorize_Inr[OF a] r obtain r0 where
    "r = settle (categories st) (r0\<lparr>Category := ''Uncategorized''\<rparr>)" by auto
  then show ?thesis using Category_settle_reset[of "categories st" r0] by simp
qed

theorem C3_category_in_store_witness:
  "fst (categorize_transactions demo_state [demo_row]) =
     Inr [demo_row\<lparr>Category := ''Subscriptions''\<rparr>] \<and>
   demo_row\<lparr>Category := ''Subscriptions''\<rparr> \<in> set [demo_row\<lparr>Category := ''Subscriptions''\<rparr>] \<and>
   Category (demo_row\<lparr>Category := ''Subscriptions''\<rparr>) \<in> fst ` set (categories demo_state)"
proof -
  have h1: "fst (categorize_transactions demo_state [demo_row]) =
     Inr [demo_row\<lparr>Category := ''Subscriptions''\<rparr>]" by code_simp
  have h2: "demo_row\<lparr>Category := ''Subscriptions''\<rparr> \<in>
     set [demo_row\<lparr>Category := ''Subscriptions''\<rparr>]"
    by simp
  from C3_category_in_store[OF h1 h2] h1 show ?thesis by simp
qed

lemma matches_iff:
  "matches n kws \<longleftrightarrow> (\<exists>kw\<in>set kws. strip (lower n) = strip (lower kw))"
  by (auto simp: matches_def)

lemma matching_categories_set:
  "c \<in> set (matching_categories cats n) \<longleftrightarrow>
     c \<noteq> ''Uncategorized'' \<and> (\<exists>kws. (c, kws) \<in> set cats \<and> matches n kws)"
  by (auto simp: matching_categories_def image_iff)

lemma last_matching_category_cases:
  "(matching_categories cats n = [] \<and> last_matching_category cats n = ''Uncategorized'') \<or>
   (matching_categories cats n \<noteq> [] \<and>
    last_matching_category cats n \<in> set (matching_categories cats n))"
proof (cases "matching_categories cats n")
  case Nil
  then show ?thesis by (simp add: last_matching_category_def)
next
  case (Cons c cs)
  have "last (c # cs) \<in> set (c # cs)" by (rule last_in_set) simp
  with Cons show ?thesis by (simp add: last_matching_category_def)
qed

lemma last_matching_category_matched:
  "last_matching_category cats n \<noteq> ''Uncategorized'' \<Longrightarrow>
   \<exists>kws kw. (last_matching_category cats n, kws) \<in> set cats \<and> kw \<in> set kws \<and>
     strip (lower n) = strip (lower kw)"
  using last_matching_category_cases[of cats n]
  by (auto simp: matching_categories_set matches_iff)

lemma last_matching_category_found:
  "(c, kws) \<in> set cats \<Longrightarrow> c \<noteq> ''Uncategorized'' \<Longrightarrow> kw \<in> set kws \<Longrightarrow>
   strip (lower n) = strip (lower kw) \<Longrightarrow> last_matching_category cats n \<noteq> ''Uncategorized''"
proof -
  assume a: "(c, kws) \<in> set cats" "c \<noteq> ''Uncategorized''" "kw \<in> set kws"
    "strip (lower n) = strip (lower kw)"
  then have "c \<in> set (matching_categories cats n)"
    by (auto simp: matching_categories_set matches_iff)
  then have "matching_categories cats n \<noteq> []" by auto
  with last_matching_category_cases[of cats n] show ?thesis
    by (auto simp: matching_categories_set)
qed

lemma categorize_row_text:
  "fst (categorize_transactions st df) = Inr df' \<Longrightarrow> i < length df \<Longrightarrow>
   Narration (df ! i) = Str n \<Longrightarrow>
   Category (df' ! i) = last_matching_category (categories st) n"
proof -
  assume r: "fst (categorize_transactions st df) = Inr df'" and i: "i < length df"
    and n: "Narration (df ! i) = Str n"
  from categorize_Inr[OF r] i
  have "df' ! i = settle (categories st) ((df ! i)\<lparr>Category := ''Uncategorized''\<rparr>)" by simp
  with n show ?thesis by (simp add: settle_reset_text)
qed

lemma strip_decomposition:
  "s = takeWhile is_space s @ strip s @ rev (takeWhile is_space (rev (dropWhile is_space s)))"
proof -
  define m where "m = dropWhile is_space s"
  have "rev (takeWhile is_space (rev m) @ dropWhile is_space (rev m)) = rev (rev m)"
    by (simp only: takeWhile_dropWhile_id)
  then have "rev (dropWhile is_space (rev m)) @ rev (takeWhile is_space (rev m)) = m"
    by (simp only: rev_append rev_rev_ident)
  then have "m = strip s @ rev (takeWhile is_space (rev m))"
    by (simp add: strip_def m_def)
  moreover have "s = takeWhile is_space s @ m" by (simp add: m_def)
  ultimately show ?thesis by (simp add: m_def)
qed

lemma strip_ends:
  "strip s = [] \<or> (\<not> is_space (hd (strip s)) \<and> \<not> is_space (last (strip s)))"
proof (cases "strip s = []")
  case True
  then show ?thesis by simp
next
  case False
  define m where "m = dropWhile is_space s"
  define k where "k = dropWhile is_space (rev m)"
  have st: "strip s = rev k" by (simp add: strip_def m_def k_def)
  with False have k: "k \<noteq> []" by simp
  then have "\<not> is_space (hd k)" unfolding k_def by (rule hd_dropWhile)
  moreover have "last (strip s) = hd k" using k by (simp add: st last_rev)
  ultimately have 1: "\<not> is_space (last (strip s))" by simp
  have "rev (takeWhile is_space (rev m) @ k) = rev (rev m)"
    unfolding k_def by (simp only: takeWhile_dropWhile_id)
  then have mk: "m = rev k @ rev (takeWhile is_space (rev m))"
    by (simp only: rev_append rev_rev_ident)
  from k have rk: "rev k \<noteq> []" by simp
  from mk rk have "hd m = hd (rev k)" by (metis hd_append2)
  moreover from mk rk have "m \<noteq> []" by (metis append_is_Nil_conv)
  then have "\<not> is_space (hd m)" unfolding m_def by (rule hd_dropWhile)
  ultimately have "\<not> is_space (hd (strip s))" by (simp add: st)
  with 1 show ?thesis by simp
qed

lemma is_space_iff:
  "is_space c \<longleftrightarrow>
     c \<in> set [CHR 0x09, CHR 0x0A, CHR 0x0B, CHR 0x0C, CHR 0x0D, CHR 0x1C, CHR 0x1D, CHR 0x1E,
              CHR 0x1F, CHR 0x20, CHR 0x85, CHR 0xA0]"
proof -
  have e: "\<And>d. (c = d) = ((of_char c :: nat) = of_char d)" by simp
  show ?thesis unfolding is_space_def Let_def by (simp add: e) arith
qed

lemma lower_alphabet:
  "lower ''ABCDEFGHIJKLMNOPQRSTUVWXYZ'' = ''abcdefghijklmnopqrstuvwxyz''"
  by code_simp

lemma lower_fixed:
  "lower ''abcdefghijklmnopqrstuvwxyz 0123456789'' = ''abcdefghijklmnopqrstuvwxyz 0123456789''"
  by code_simp

lemma clean_Amazon: "strip (lower ''  Amazon  '') = ''amazon''"
  by code_simp

lemma keyword_Amazon_matches:
  "fst (categorize_transactions
          \<lparr>categories = [(''Shopping'', [''Amazon''])], category_file = None\<rparr> [demo_row]) =
     Inr [demo_row\<lparr>Category := ''Shopping''\<rparr>]"
  by code_simp

lemma no_substring_match:
  "fst (categorize_transactions
          \<lparr>categories = [(''Shopping'', [''amazon''])], category_file = None\<rparr>
          [demo_row\<lparr>Narration := Str ''amazon prime''\<rparr>]) =
     Inr [demo_row\<lparr>Narration := Str ''amazon prime'', Category := ''Uncategorized''\<rparr>]"
  by code_simp

lemma no_superstring_match:
  "fst (categorize_transactions
          \<lparr>categories = [(''Shopping'', [''amazon prime''])], category_file = None\<rparr>
          [demo_row\<lparr>Narration := Str ''amazon''\<rparr>]) =
     Inr [demo_row\<lparr>Narration := Str ''amazon'', Category := ''Uncategorized''\<rparr>]"
  by code_simp

text \<open>
  Claim C5: a narration and a keyword match exactly when their lower-cased, stripped
  forms are equal as whole strings. In any store and any table, a row with a text
  narration leaves the reserved category only for a category that holds a keyword whose
  cleaned form equals the cleaned narration, and it does leave it whenever some category
  other than the reserved one holds such a keyword; with one category holding one
  keyword the row gets that category exactly when the two cleaned strings are equal.
  Stripping removes the white space on both ends and nothing else, lower-casing keeps the
  length and works character by character. The keyword \<open>Amazon\<close> matches the narration
  \<open>amazon\<close> with blanks around it; a keyword that is a proper part of the narration, or
  the other way round, does not match.
\<close>

theorem C5_exact_match:
  "(fst (categorize_transactions st df) = Inr df' \<and> i < length df \<and>
    Narration (df ! i) = Str narration \<longrightarrow>
      (Category (df' ! i) \<noteq> ''Uncategorized'' \<longrightarrow>
         (\<exists>keywords keyword.
            (Category (df' ! i), keywords) \<in> set (categories st) \<and> keyword \<in> set keywords \<and>
            strip (lower narration) = strip (lower keyword))) \<and>
      ((\<exists>category keywords keyword.
            (category, keywords) \<in> set (categories st) \<and> category \<noteq> ''Uncategorized'' \<and>
            keyword \<in> set keywords \<and> strip (lower narration) = strip (lower keyword)) \<longrightarrow>
         Category (df' ! i) \<noteq> ''Uncategorized'')) \<and>
   (category \<noteq> ''Uncategorized'' \<and> Narration r = Str narration \<longrightarrow>
      fst (categorize_transactions \<lparr>categories = [(category, [keyword])], category_file = f\<rparr> [r]) =
        Inr [r\<lparr>Category :=
               (if strip (lower narration) = strip (lower keyword) then category
                else ''Uncategorized'')\<rparr>]) \<and>
   s = takeWhile is_space s @ strip s @ rev (takeWhile is_space (rev (dropWhile is_space s))) \<and>
   (strip s = [] \<or> (\<not> is_space (hd (strip s)) \<and> \<not> is_space (last (strip s)))) \<and>
   (is_space c \<longleftrightarrow>
      c \<in> set [CHR 0x09, CHR 0x0A, CHR 0x0B, CHR 0x0C, CHR 0x0D, CHR 0x1C, CHR 0x1D, CHR 0x1E,
               CHR 0x1F, CHR 0x20, CHR 0x85, CHR 0xA0]) \<and>
   length (lower s) = length s \<and>
   (\<forall>j<length s. lower s ! j = lower_char (s ! j)) \<and>
   lower ''ABCDEFGHIJKLMNOPQRSTUVWXYZ'' = ''abcdefghijklmnopqrstuvwxyz'' \<and>
   lower ''abcdefghijklmnopqrstuvwxyz 0123456789'' = ''abcdefghijklmnopqrstuvwxyz 0123456789'' \<and>
   strip (lower ''  Amazon  '') = ''amazon'' \<and>
   fst (categorize_transactions
          \<lparr>categories = [(''Shopping'', [''Amazon''])], category_file = None\<rparr> [demo_row]) =
     Inr [demo_row\<lparr>Category := ''Shopping''\<rparr>] \<and>
   fst (categorize_transactions
          \<lparr>categories = [(''Shopping'', [''amazon''])], category_file = None\<rparr>
          [demo_row\<lparr>Narration := Str ''amazon prime''\<rparr>]) =
     Inr [demo_row\<lparr>Narration := Str ''amazon prime'', Category := ''Uncategorized''\<rparr>] \<and>
   fst (categorize_transactions
          \<lparr>categories = [(''Shopping'', [''amazon prime''])], category_file = None\<rparr>
          [demo_row\<lparr>Narration := Str ''amazon''\<rparr>]) =
     Inr [demo_row\<lparr>Narration := Str ''amazon'', Category := ''Uncategorized''\<rparr>]"
proof (intro conjI impI allI)
  assume a: "fst (categorize_transactions st df) = Inr df' \<and> i < length df \<and>
    Narration (df ! i) = Str narration"
  then have c: "Category (df' ! i) = last_matching_category (categories st) narration"
    by (auto intro: categorize_row_text)
  {
    assume "Category (df' ! i) \<noteq> ''Uncategorized''"
    with c show "\<exists>keywords keyword.
            (Category (df' ! i), keywords) \<in> set (categories st) \<and> keyword \<in> set keywords \<and>
            strip (lower narration) = strip (lower keyword)"
      using last_matching_category_matched[of "categories st" narration] by simp
  }
  {
    assume "\<exists>category keywords keyword.
            (category, keywords) \<in> set (categories st) \<and> category \<noteq> ''Uncategorized'' \<and>
            keyword \<in> set keywords \<and> strip (lower narration) = strip (lower keyword)"
    with c show "Category (df' ! i) \<noteq> ''Uncategorized''"
      using last_matching_category_found[of _ _ "categories st" _ narration] by auto
  }
next
  assume "category \<noteq> ''Uncategorized'' \<and> Narration r = Str narration"
  then show "fst (categorize_transactions
        \<lparr>categories = [(category, [keyword])], category_file = f\<rparr> [r]) =
        Inr [r\<lparr>Category :=
               (if strip (lower narration) = strip (lower keyword) then category
                else ''Uncategorized'')\<rparr>]"
    by (simp add: categorize_transactions_def)
next
  show "s = takeWhile is_space s @ strip s @ rev (takeWhile is_space (rev (dropWhile is_space s)))"
    by (rule strip_decomposition)
  show "strip s = [] \<or> (\<not> is_space (hd (strip s)) \<and> \<not> is_space (last (strip s)))"
    by (rule strip_ends)
  show "is_space c \<longleftrightarrow>
      c \<in> set [CHR 0x09, CHR 0x0A, CHR 0x0B, CHR 0x0C, CHR 0x0D, CHR 0x1C, CHR 0x1D, CHR 0x1E,
               CHR 0x1F, CHR 0x20, CHR 0x85, CHR 0xA0]"
    by (rule is_space_iff)
  show "length (lower s) = length s" by (simp add: lower_def)
  show "lower ''ABCDEFGHIJKLMNOPQRSTUVWXYZ'' = ''abcdefghijklmnopqrstuvwxyz''"
    by (rule lower_alphabet)
  show "lower ''abcdefghijklmnopqrstuvwxyz 0123456789'' = ''abcdefghijklmnopqrstuvwxyz 0123456789''"
    by (rule lower_fixed)
  show "strip (lower ''  Amazon  '') = ''amazon''" by (rule clean_Amazon)
  show "fst (categorize_transactions
          \<lparr>categories = [(''Shopping'', [''Amazon''])], category_file = None\<rparr> [demo_row]) =
     Inr [demo_row\<lparr>Category := ''Shopping''\<rparr>]"
    by (rule keyword_Amazon_matches)
  show "fst (categorize_transactions
          \<lparr>categories = [(''Shopping'', [''amazon''])], category_file = None\<rparr>
          [demo_row\<lparr>Narration := Str ''amazon prime''\<rparr>]) =
     Inr [demo_row\<lparr>Narration := Str ''amazon prime'', Category := ''Uncategorized''\<rparr>]"
    by (rule no_substring_match)
  show "fst (categorize_transactions
          \<lparr>categories = [(''Shopping'', [''amazon prime''])], category_file = None\<rparr>
          [demo_row\<lparr>Narration := Str ''amazon''\<rparr>]) =
     Inr [demo_row\<lparr>Narration := Str ''amazon'', Category := ''Uncategorized''\<rparr>]"
    by (rule no_superstring_match)
next
  fix j
  assume "j < length s"
  then show "lower s ! j = lower_char (s ! j)" by (simp add: lower_def)
qed

theorem C5_exact_match_witness:
  "fst (categorize_transactions demo_state [demo_row]) =
     Inr [demo_row\<lparr>Category := ''Subscriptions''\<rparr>] \<and>
   (0::nat) < length [demo_row] \<and>
   Narration ([demo_row] ! 0) = Str ''  amazon  '' \<and>
   (''Subscriptions'', [''amazon'']) \<in> set (categories demo_state) \<and>
   ''Subscriptions'' \<noteq> ''Uncategorized'' \<and>
   strip (lower ''  amazon  '') = strip (lower ''amazon'') \<and>
   Category ([demo_row\<lparr>Category := ''Subscriptions''\<rparr>] ! 0) \<noteq> ''Uncategorized'' \<and>
   ''Shopping'' \<noteq> ''Uncategorized'' \<and> Narration demo_row = Str ''  amazon  '' \<and>
   strip (lower ''  amazon  '') = strip (lower ''Amazon'') \<and>
   fst (categorize_transactions
          \<lparr>categories = [(''Shopping'', [''Amazon''])], category_file = None\<rparr> [demo_row]) =
     Inr [demo_row\<lparr>Category := ''Shopping''\<rparr>] \<and>
   strip ''  amazon  '' \<noteq> [] \<and> \<not> is_space (hd (strip ''  amazon  '')) \<and>
   (0::nat) < length ''  amazon  '' \<and>
   lower ''  amazon  '' ! 0 = lower_char (''  amazon  '' ! 0)"
proof -
  note t = C5_exact_match[of demo_state "[demo_row]"
      "[demo_row\<lparr>Category := ''Subscriptions''\<rparr>]" 0 "''  amazon  ''" "''Shopping''" demo_row
      "''Amazon''" None "''  amazon  ''"]
  note A = t[THEN conjunct1]
  note B = t[THEN conjunct2, THEN conjunct1]
  note D = t[THEN conjunct2, THEN conjunct2, THEN conjunct2, THEN conjunct1]
  note G = t[THEN conjunct2, THEN conjunct2, THEN conjunct2, THEN conjunct2, THEN conjunct2,
      THEN conjunct2, THEN conjunct1]
  have h1: "fst (categorize_transactions demo_state [demo_row]) =
     Inr [demo_row\<lparr>Category := ''Subscriptions''\<rparr>]" by code_simp
  have h2: "Narration ([demo_row] ! 0) = Str ''  amazon  ''" by (simp add: demo_row_def)
  have h3: "(''Subscriptions'', [''amazon'']) \<in> set (categories demo_state)"
    by (simp add: demo_state_def demo_store_def)
  have h4: "strip (lower ''  amazon  '') = ''amazon''" by code_simp
  have h5: "strip (lower ''amazon'') = ''amazon''" by code_simp
  have h6: "strip (lower ''Amazon'') = ''amazon''" by code_simp
  have h7: "Narration demo_row = Str ''  amazon  ''" by (simp add: demo_row_def)
  have h8: "strip ''  amazon  '' = ''amazon''" by code_simp
  have e: "\<exists>category keywords keyword.
      (category, keywords) \<in> set (categories demo_state) \<and> category \<noteq> ''Uncategorized'' \<and>
      keyword \<in> set keywords \<and> strip (lower ''  amazon  '') = strip (lower keyword)"
    using h3 h4 h5 by (intro exI[of _ "''Subscriptions''"] exI[of _ "[''amazon'']"]
        exI[of _ "''amazon''"]) simp
  from A h1 h2 e
  have c1: "Category ([demo_row\<lparr>Category := ''Subscriptions''\<rparr>] ! 0) \<noteq> ''Uncategorized''"
    by simp
  from B h7 h4 h6
  have c2: "fst (categorize_transactions
          \<lparr>categories = [(''Shopping'', [''Amazon''])], category_file = None\<rparr> [demo_row]) =
     Inr [demo_row\<lparr>Category := ''Shopping''\<rparr>]"
    by simp
  from D h8 have c3: "\<not> is_space (hd (strip ''  amazon  ''))" by simp
  from G have c4: "lower ''  amazon  '' ! 0 = lower_char (''  amazon  '' ! 0)" by simp
  from h1 h2 h3 h4 h5 h6 h7 h8 c1 c2 c3 c4 show ?thesis by simp
qed

text \<open>
  Claim C10: categorize_transactions changes nothing but the category column. The result
  has the rows of the input in the same order, each with its date, narration, withdrawal
  and deposit amount (and any further column) as before, and the category store is the
  same after the call, also when the call raises.
\<close>

theorem C10_frame:
  "snd (categorize_transactions st df) = st \<and>
   (fst (categorize_transactions st df) = Inr df' \<longrightarrow>
      length df' = length df \<and>
      (\<forall>i<length df.
         Date (df' ! i) = Date (df ! i) \<and>
         Narration (df' ! i) = Narration (df ! i) \<and>
         Withdrawal_Amt (df' ! i) = Withdrawal_Amt (df ! i) \<and>
         Deposit_Amt (df' ! i) = Deposit_Amt (df ! i) \<and>
         df' ! i = (df ! i)\<lparr>Category := Category (df' ! i)\<rparr>))"
proof (intro conjI impI allI)
  show "snd (categorize_transactions st df) = st" by (simp add: categorize_transactions_def)
next
  assume "fst (categorize_transactions st df) = Inr df'"
  then show "length df' = length df" by (auto dest: categorize_Inr)
next
  fix i
  assume a: "fst (categorize_transactions st df) = Inr df'" and i: "i < length df"
  from categorize_Inr[OF a] i
  have e: "df' ! i = settle (categories st) ((df ! i)\<lparr>Category := ''Uncategorized''\<rparr>)" by simp
  have f: "df' ! i = (df ! i)\<lparr>Category := Category (df' ! i)\<rparr>"
    using settle_frame[of "categories st" "(df ! i)\<lparr>Category := ''Uncategorized''\<rparr>"] e by simp
  show "Date (df' ! i) = Date (df ! i)" by (subst f) simp
  show "Narration (df' ! i) = Narration (df ! i)" by (subst f) simp
  show "Withdrawal_Amt (df' ! i) = Withdrawal_Amt (df ! i)" by (subst f) simp
  show "Deposit_Amt (df' ! i) = Deposit_Amt (df ! i)" by (subst f) simp
  show "df' ! i = (df ! i)\<lparr>Category := Category (df' ! i)\<rparr>" by (rule f)
qed

theorem C10_frame_witness:
  "snd (categorize_transactions demo_state [demo_row]) = demo_state \<and>
   fst (categorize_transactions demo_state [demo_row]) =
     Inr [demo_row\<lparr>Category := ''Subscriptions''\<rparr>] \<and>
   (0::nat) < length [demo_row] \<and>
   Date ([demo_row\<lparr>Category := ''Subscriptions''\<rparr>] ! 0) = (1, 4, 23) \<and>
   Narration ([demo_row\<lparr>Category := ''Subscriptions''\<rparr>] ! 0) = Str ''  amazon  '' \<and>
   Withdrawal_Amt ([demo_row\<lparr>Category := ''Subscriptions''\<rparr>] ! 0) = 500 \<and>
   Deposit_Amt ([demo_row\<lparr>Category := ''Subscriptions''\<rparr>] ! 0) = 0"
proof -
  have h: "fst (categorize_transactions demo_state [demo_row]) =
     Inr [demo_row\<lparr>Category := ''Subscriptions''\<rparr>]" by code_simp
  from C10_frame[of demo_state "[demo_row]" "[demo_row\<lparr>Category := ''Subscriptions''\<rparr>]"] h
  show ?thesis by (simp add: demo_row_def)
qed

section \<open>The round trip through the file\<close>

lemma hex_val_hex_digit: "k < 16 \<Longrightarrow> hex_val (hex_digit k) = Some k"
  by (auto simp: hex_val_def hex_digit_def Let_def)

lemma decode_escape:
  "decode_uXXXX (CHR ''0'') (CHR ''0'') (hex_digit (of_char c div 16)) (hex_digit (of_char c mod 16))
     = Some c"
proof -
  have n: "(of_char c :: nat) < 256" by simp
  then have d: "(of_char c :: nat) div 16 < 16" by arith
  have m: "(of_char c :: nat) mod 16 < 16" by simp
  have z: "hex_val (CHR ''0'') = Some 0" by (simp add: hex_val_def)
  show ?thesis
    using n by (simp add: decode_uXXXX_def z hex_val_hex_digit[OF d] hex_val_hex_digit[OF m])
qed

lemma scan_escape:
  "scanstring (escape_char c @ t) =
     (case scanstring t of None \<Rightarrow> None | Some (s, r) \<Rightarrow> Some (c # s, r))"
  by (simp add: escape_char_def unescape_def decode_escape Let_def split: option.splits)

lemma scan_encoded:
  "scanstring (concat (map escape_char s) @ CHR 0x22 # rest) = Some (s, rest)"
  by (induction s) (simp_all add: scan_escape)

lemma skip_ws_simps [simp]:
  "skip_ws [] = []"
  "skip_ws (CHR '' '' # s) = skip_ws s"
  "skip_ws (CHR 0x22 # s) = CHR 0x22 # s"
  "skip_ws (CHR '','' # s) = CHR '','' # s"
  "skip_ws (CHR '':'' # s) = CHR '':'' # s"
  "skip_ws (CHR ''['' # s) = CHR ''['' # s"
  "skip_ws (CHR '']'' # s) = CHR '']'' # s"
  "skip_ws (CHR ''}'' # s) = CHR ''}'' # s"
  "skip_ws (CHR ''{'' # s) = CHR ''{'' # s"
  by (simp_all add: skip_ws_def is_ws_def)

lemma skip_ws_encode_string [simp]: "skip_ws (encode_string s @ t) = encode_string s @ t"
  by (simp add: encode_string_def)

lemma join_Cons_Cons: "join sep (x # y # ys) @ t = x @ sep @ join sep (y # ys) @ t"
  by simp

lemma skip_ws_join_strings [simp]:
  "skip_ws (join sep (map encode_string (v # vs)) @ t) = join sep (map encode_string (v # vs)) @ t"
  by (cases vs) simp_all

lemma parse_elements_step:
  "parse_elements (encode_string v @ t) =
     (case skip_ws t of
        [] \<Rightarrow> None
      | d # r' \<Rightarrow>
          if d = CHR '']'' then Some ([v], r')
          else if d = CHR '','' then
            (case parse_elements (skip_ws r') of
               None \<Rightarrow> None
             | Some (vs, r'') \<Rightarrow> Some (v # vs, r''))
          else None)"
  by (subst parse_elements.simps) (simp add: encode_string_def scan_encoded)

lemma parse_elements_encoded:
  "parse_elements (join '', '' (map encode_string (v # vs)) @ CHR '']'' # rest) =
     Some (v # vs, rest)"
proof (induction vs arbitrary: v)
  case Nil
  show ?case by (simp add: parse_elements_step)
next
  case (Cons w ws)
  have "parse_elements (join '', '' (map encode_string (v # w # ws)) @ CHR '']'' # rest) =
        parse_elements (encode_string v @ '', '' @ join '', '' (map encode_string (w # ws))
           @ CHR '']'' # rest)"
    by simp
  also have "\<dots> = Some (v # w # ws, rest)"
    by (subst parse_elements_step) (simp add: Cons del: join.simps list.map)
  finally show ?case .
qed

lemma parse_array_encoded:
  "parse_array (join '', '' (map encode_string vs) @ CHR '']'' # rest) = Some (vs, rest)"
proof (cases vs)
  case Nil
  then show ?thesis by (simp add: parse_array_def)
next
  case (Cons v ws)
  obtain t where t: "join '', '' (map encode_string (v # ws)) @ CHR '']'' # rest = CHR 0x22 # t"
    by (cases ws) (simp_all add: encode_string_def)
  have "skip_ws (join '', '' (map encode_string (v # ws)) @ CHR '']'' # rest) = CHR 0x22 # t"
    using t by simp
  then have "parse_array (join '', '' (map encode_string (v # ws)) @ CHR '']'' # rest) =
      parse_elements (CHR 0x22 # t)"
    by (simp add: parse_array_def del: skip_ws_join_strings)
  with t parse_elements_encoded[of v ws rest] show ?thesis by (simp add: Cons)
qed

lemma encode_item_eq:
  "encode_item (k, vs) @ t =
     encode_string k @ CHR '':'' # CHR '' '' # CHR ''['' #
       (join '', '' (map encode_string vs) @ CHR '']'' # t)"
  by (simp add: encode_item_def encode_list_def)

lemma skip_ws_join_items [simp]:
  "skip_ws (join sep (map encode_item (p # ps)) @ t) = join sep (map encode_item (p # ps)) @ t"
  by (cases ps; cases p) (simp_all add: encode_item_def)

lemma parse_members_step:
  "parse_members (encode_item (k, vs) @ t) =
     (case skip_ws t of
        [] \<Rightarrow> None
      | e # r4 \<Rightarrow>
          if e = CHR ''}'' then Some ([(k, vs)], r4)
          else if e = CHR '','' then
            (case parse_members (skip_ws r4) of
               None \<Rightarrow> None
             | Some (ps, r5) \<Rightarrow> Some ((k, vs) # ps, r5))
          else None)"
  unfolding encode_item_eq
  by (subst parse_members.simps) (simp add: encode_string_def scan_encoded parse_array_encoded)

lemma parse_members_encoded:
  "parse_members (join '', '' (map encode_item (p # ps)) @ CHR ''}'' # rest) =
     Some (p # ps, rest)"
proof (induction ps arbitrary: p)
  case Nil
  show ?case by (cases p) (simp add: parse_members_step)
next
  case (Cons q qs)
  obtain k vs where p: "p = (k, vs)" by (cases p)
  have "parse_members (join '', '' (map encode_item (p # q # qs)) @ CHR ''}'' # rest) =
        parse_members (encode_item (k, vs) @ '', '' @ join '', '' (map encode_item (q # qs))
           @ CHR ''}'' # rest)"
    by (simp add: p)
  also have "\<dots> = Some (p # q # qs, rest)"
    by (subst parse_members_step) (simp add: Cons p del: join.simps list.map)
  finally show ?case .
qed

lemma parse_object_encoded:
  "parse_object (join '', '' (map encode_item m) @ CHR ''}'' # rest) = Some (m, rest)"
proof (cases m)
  case Nil
  then show ?thesis by (simp add: parse_object_def)
next
  case (Cons p ps)
  obtain t where t: "join '', '' (map encode_item (p # ps)) @ CHR ''}'' # rest = CHR 0x22 # t"
    by (cases ps; cases p) (simp_all add: encode_item_def encode_string_def)
  have "skip_ws (join '', '' (map encode_item (p # ps)) @ CHR ''}'' # rest) = CHR 0x22 # t"
    using t by simp
  then have "parse_object (join '', '' (map encode_item (p # ps)) @ CHR ''}'' # rest) =
      parse_members (CHR 0x22 # t)"
    by (simp add: parse_object_def del: skip_ws_join_items)
  with t parse_members_encoded[of p ps rest] show ?thesis by (simp add: Cons)
qed

lemma dict_set_fresh: "k \<notin> fst ` set m \<Longrightarrow> dict_set m k v = m @ [(k, v)]"
  by (induction m) auto

lemma foldl_dict_set:
  "distinct (map fst (acc @ m)) \<Longrightarrow> foldl (\<lambda>d (k, v). dict_set d k v) acc m = acc @ m"
proof (induction m arbitrary: acc)
  case Nil
  then show ?case by simp
next
  case (Cons p ps)
  obtain k v where p: "p = (k, v)" by (cases p)
  from Cons.prems p have fresh: "k \<notin> fst ` set acc" by auto
  from Cons.prems p have "distinct (map fst ((acc @ [(k, v)]) @ ps))" by simp
  from Cons.IH[OF this] show ?case by (simp add: p dict_set_fresh[OF fresh])
qed

lemma dict_of_wf: "wf_store m \<Longrightarrow> dict_of m = m"
  using foldl_dict_set[of "[]" m] by (simp add: dict_of_def wf_store_def)

lemma json_load_dump: "wf_store m \<Longrightarrow> json_load (json_dump m) = Some m"
  using parse_object_encoded[of m "[]"]
  by (simp add: json_load_def json_dump_def dict_of_wf)

text \<open>
  Claim C4: saving a category mapping and then loading it gives the mapping back, with
  the same keys in the same order and the same keyword list for each key. The mapping is
  a Python dict, so its keys are distinct; \<open>save_categories\<close> writes the file, and the
  start of the script reads the state it left.
\<close>

theorem C4_save_load_round_trip:
  "wf_store (categories st) \<Longrightarrow>
   json_load (json_dump (categories st)) = Some (categories st) \<and>
   startup session (category_file (save_categories st)) = Some (save_categories st) \<and>
   categories (save_categories st) = categories st"
  by (simp add: startup_def save_categories_def json_load_dump)

theorem C4_save_load_round_trip_witness:
  "wf_store (categories demo_state) \<and>
   startup None (category_file (save_categories demo_state)) = Some (save_categories demo_state) \<and>
   categories (save_categories demo_state) = demo_store"
proof -
  have h: "wf_store (categories demo_state)"
    by (simp add: wf_store_def demo_state_def demo_store_def)
  from C4_save_load_round_trip[OF h, of None] h show ?thesis
    by (simp add: save_categories_def demo_state_def)
qed

section \<open>Properties of the store operations\<close>

lemma map_of_dict_set_same: "map_of (dict_set m k v) k = Some v"
  by (induction m) auto

lemma map_of_dict_set_other: "c \<noteq> k \<Longrightarrow> map_of (dict_set m k v) c = map_of m c"
  by (induction m) auto

lemma keys_dict_set_present: "map_of m k = Some w \<Longrightarrow> map fst (dict_set m k v) = map fst m"
  by (induction m) (auto split: if_splits)

lemma map_of_absent: "k \<notin> fst ` set m \<Longrightarrow> map_of m k = None"
  by (simp add: map_of_eq_None_iff)

text \<open>
  Claim C6: for a category of the store, add_keyword_to_category strips the keyword. When
  the stripped keyword is empty or already in the category's list, it returns False and
  leaves the state as it is. Otherwise it appends the stripped keyword once to that list,
  leaves the other categories alone, writes the file and returns True; a second call with
  the same keyword then returns False and the keyword stays in the list once.
\<close>

theorem C6_add_keyword:
  "map_of (categories st) category = Some kws \<Longrightarrow>
   (strip keyword = [] \<or> strip keyword \<in> set kws \<longrightarrow>
      add_keyword_to_category category keyword st = (Inr False, st)) \<and>
   (strip keyword \<noteq> [] \<and> strip keyword \<notin> set kws \<longrightarrow>
      (\<exists>st'. add_keyword_to_category category keyword st = (Inr True, st') \<and>
         map_of (categories st') category = Some (kws @ [strip keyword]) \<and>
         (\<forall>c. c \<noteq> category \<longrightarrow> map_of (categories st') c = map_of (categories st) c) \<and>
         map fst (categories st') = map fst (categories st) \<and>
         category_file st' = Some (json_dump (categories st')) \<and>
         count_list (kws @ [strip keyword]) (strip keyword) = 1 \<and>
         add_keyword_to_category category keyword st' = (Inr False, st')))"
proof (intro conjI impI)
  assume m: "map_of (categories st) category = Some kws"
    and "strip keyword = [] \<or> strip keyword \<in> set kws"
  then show "add_keyword_to_category category keyword st = (Inr False, st)"
    by (auto simp: add_keyword_to_category_def Let_def)
next
  assume m: "map_of (categories st) category = Some kws"
    and k: "strip keyword \<noteq> [] \<and> strip keyword \<notin> set kws"
  let ?k = "strip keyword"
  let ?st = "save_categories (st\<lparr>categories := dict_set (categories st) category (kws @ [?k])\<rparr>)"
  have 1: "add_keyword_to_category category keyword st = (Inr True, ?st)"
    using m k by (simp add: add_keyword_to_category_def Let_def)
  have c: "categories ?st = dict_set (categories st) category (kws @ [?k])"
    by (simp add: save_categories_def)
  have 2: "map_of (categories ?st) category = Some (kws @ [?k])"
    by (simp add: c map_of_dict_set_same)
  have 3: "\<forall>c. c \<noteq> category \<longrightarrow> map_of (categories ?st) c = map_of (categories st) c"
    by (simp add: c map_of_dict_set_other)
  have 4: "map fst (categories ?st) = map fst (categories st)"
    using m by (simp add: c keys_dict_set_present)
  have 5: "category_file ?st = Some (json_dump (categories ?st))"
    by (simp add: save_categories_def)
  have 6: "count_list (kws @ [?k]) ?k = 1"
    using k by (simp add: count_list_0_iff)
  have 7: "add_keyword_to_category category keyword ?st = (Inr False, ?st)"
    using k 2 by (simp add: add_keyword_to_category_def Let_def)
  from 1 2 3 4 5 6 7
  show "\<exists>st'. add_keyword_to_category category keyword st = (Inr True, st') \<and>
         map_of (categories st') category = Some (kws @ [?k]) \<and>
         (\<forall>c. c \<noteq> category \<longrightarrow> map_of (categories st') c = map_of (categories st) c) \<and>
         map fst (categories st') = map fst (categories st) \<and>
         category_file st' = Some (json_dump (categories st')) \<and>
         count_list (kws @ [?k]) ?k = 1 \<and>
         add_keyword_to_category category keyword st' = (Inr False, st')"
    by blast
qed

theorem C6_add_keyword_witness:
  "map_of (categories demo_state) ''Shopping'' = Some [''Amazon''] \<and>
   strip ''Amazon '' \<in> set [''Amazon''] \<and>
   add_keyword_to_category ''Shopping'' ''Amazon '' demo_state = (Inr False, demo_state) \<and>
   strip '' flipkart '' \<noteq> [] \<and> strip '' flipkart '' \<notin> set [''Amazon''] \<and>
   fst (add_keyword_to_category ''Shopping'' '' flipkart '' demo_state) = Inr True \<and>
   map_of (categories (snd (add_keyword_to_category ''Shopping'' '' flipkart '' demo_state)))
       ''Shopping'' = Some [''Amazon'', ''flipkart''] \<and>
   fst (add_keyword_to_category ''Shopping'' '' flipkart ''
          (snd (add_keyword_to_category ''Shopping'' '' flipkart '' demo_state))) = Inr False"
proof -
  have h: "map_of (categories demo_state) ''Shopping'' = Some [''Amazon'']"
    by (simp add: demo_state_def demo_store_def)
  have a: "strip ''Amazon '' = ''Amazon''" by code_simp
  have b: "strip '' flipkart '' = ''flipkart''" by code_simp
  from C6_add_keyword[OF h, of "''Amazon ''"] C6_add_keyword[OF h, of "'' flipkart ''"] h
  show ?thesis by (auto simp: a b)
qed

text \<open>
  Claim C7, as the specification states it, says that add_keyword_to_category fails for
  every keyword when the category is not in the store. With a keyword of blanks the
  condition stops at its first operand: nothing is raised and False is returned.
\<close>

theorem C7_blank_keyword_counterexample:
  "''Travel'' \<notin> set (map fst (categories demo_state)) \<and>
   add_keyword_to_category ''Travel'' ''   '' demo_state = (Inr False, demo_state)"
  by code_simp

text \<open>
  Claim C7, amended: for a category name that is not in the store and a keyword whose
  stripped form is not empty, add_keyword_to_category fails with KeyError (the failure
  the specification calls InvalidInput) and leaves the dict and the file unchanged; for
  a keyword whose stripped form is empty it returns False, also without any change.
\<close>

theorem C7_unknown_category:
  "category \<notin> fst ` set (categories st) \<Longrightarrow>
   add_keyword_to_category category keyword st =
     (if strip keyword = [] then Inr False else Inl (KeyError category), st)"
  by (simp add: add_keyword_to_category_def Let_def map_of_absent)

theorem C7_unknown_category_witness:
  "''Travel'' \<notin> fst ` set (categories demo_state) \<and>
   strip '' goa '' \<noteq> [] \<and>
   add_keyword_to_category ''Travel'' '' goa '' demo_state = (Inl (KeyError ''Travel''), demo_state)"
proof -
  have h: "''Travel'' \<notin> fst ` set (categories demo_state)"
    by (simp add: demo_state_def demo_store_def)
  have b: "strip '' goa '' = ''goa''" by code_simp
  from C7_unknown_category[OF h, of "'' goa ''"] h show ?thesis by (simp add: b)
qed

text \<open>
  Claim C9, as the specification states it, says that adding a category fails with
  InvalidInput when the name is empty or already present. The code raises nothing in
  either case: the guarded block is skipped and the state stays as it is.
\<close>

theorem C9_no_error_counterexample:
  "add_category True [] demo_state = (Inr False, demo_state) \<and>
   ''Shopping'' \<in> set (map fst (categories demo_state)) \<and>
   add_category True ''Shopping'' demo_state = (Inr False, demo_state)"
  by code_simp

text \<open>
  Claim C9, amended: when the name is empty or already present, adding a category does
  nothing, raises no error and reports False. Otherwise it inserts the name with an empty
  keyword list behind the existing entries, writes the file and reports True; a second
  call with the same name reports False and the store holds exactly one entry of that
  name. Without a press of the button nothing happens.
\<close>

theorem C9_add_category:
  "(new_category = [] \<or> new_category \<in> fst ` set (categories st) \<longrightarrow>
      add_category True new_category st = (Inr False, st)) \<and>
   (new_category \<noteq> [] \<and> new_category \<notin> fst ` set (categories st) \<longrightarrow>
      (\<exists>st'. add_category True new_category st = (Inr True, st') \<and>
         categories st' = categories st @ [(new_category, [])] \<and>
         category_file st' = Some (json_dump (categories st')) \<and>
         length (filter (\<lambda>p. fst p = new_category) (categories st')) = 1 \<and>
         add_category True new_category st' = (Inr False, st'))) \<and>
   add_category False new_category st = (Inr False, st)"
proof (intro conjI impI)
  assume "new_category = [] \<or> new_category \<in> fst ` set (categories st)"
  then show "add_category True new_category st = (Inr False, st)"
    by (auto simp: add_category_def)
next
  assume n: "new_category \<noteq> [] \<and> new_category \<notin> fst ` set (categories st)"
  let ?st = "save_categories (st\<lparr>categories := dict_set (categories st) new_category []\<rparr>)"
  have c: "categories ?st = categories st @ [(new_category, [])]"
    using n by (simp add: save_categories_def dict_set_fresh)
  have 1: "add_category True new_category st = (Inr True, ?st)"
    using n by (simp add: add_category_def)
  have 3: "category_file ?st = Some (json_dump (categories ?st))"
    by (simp add: save_categories_def)
  have "filter (\<lambda>p. fst p = new_category) (categories st) = []"
    using n by (auto simp: filter_empty_conv)
  then have 4: "length (filter (\<lambda>p. fst p = new_category) (categories ?st)) = 1"
    by (simp add: c)
  have 5: "add_category True new_category ?st = (Inr False, ?st)"
    by (simp add: add_category_def c)
  from 1 c 3 4 5
  show "\<exists>st'. add_category True new_category st = (Inr True, st') \<and>
         categories st' = categories st @ [(new_category, [])] \<and>
         category_file st' = Some (json_dump (categories st')) \<and>
         length (filter (\<lambda>p. fst p = new_category) (categories st')) = 1 \<and>
         add_category True new_category st' = (Inr False, st')"
    by blast
next
  show "add_category False new_category st = (Inr False, st)"
    by (simp add: add_category_def)
qed

theorem C9_add_category_witness:
  "''Shopping'' \<in> fst ` set (categories demo_state) \<and>
   add_category True ''Shopping'' demo_state = (Inr False, demo_state) \<and>
   ''Travel'' \<noteq> [] \<and> ''Travel'' \<notin> fst ` set (categories demo_state) \<and>
   fst (add_category True ''Travel'' demo_state) = Inr True \<and>
   categories (snd (add_category True ''Travel'' demo_state)) = demo_store @ [(''Travel'', [])] \<and>
   fst (add_category True ''Travel'' (snd (add_category True ''Travel'' demo_state))) = Inr False"
proof -
  have h1: "''Shopping'' \<in> fst ` set (categories demo_state)"
    by (simp add: demo_state_def demo_store_def)
  have h2: "''Travel'' \<noteq> [] \<and> ''Travel'' \<notin> fst ` set (categories demo_state)"
    by (simp add: demo_state_def demo_store_def)
  have c: "categories demo_state = demo_store" by (simp add: demo_state_def)
  from C9_add_category[of "''Shopping''" demo_state] C9_add_category[of "''Travel''" demo_state]
    h1 h2
  show ?thesis by (auto simp: c)
qed

section \<open>Properties of the amount cleanup\<close>

lemma more_digits_all:
  "list_all is_digit ds \<Longrightarrow> r = [] \<or> (\<not> is_digit (hd r) \<and> hd r \<noteq> CHR ''_'') \<Longrightarrow>
   more_digits (ds @ r) = (ds, r)"
proof (induction ds)
  case Nil
  then show ?case by (cases r) auto
next
  case (Cons d ds)
  then show ?case by simp
qed

lemma digitpart_all:
  "ds \<noteq> [] \<Longrightarrow> list_all is_digit ds \<Longrightarrow>
   r = [] \<or> (\<not> is_digit (hd r) \<and> hd r \<noteq> CHR ''_'') \<Longrightarrow>
   digitpart (ds @ r) = Some (ds, r)"
  by (cases ds) (simp_all add: digitpart_def more_digits_all)

lemma float_strip_id:
  "s \<noteq> [] \<Longrightarrow> \<not> is_float_space (hd s) \<Longrightarrow> \<not> is_float_space (last s) \<Longrightarrow> float_strip s = s"
proof -
  assume s: "s \<noteq> []" and h: "\<not> is_float_space (hd s)" and l: "\<not> is_float_space (last s)"
  from s h have 1: "dropWhile is_float_space s = s" by (cases s) simp_all
  from s l have 2: "dropWhile is_float_space (rev s) = rev s"
    by (cases "rev s") (simp_all add: hd_rev[symmetric])
  show ?thesis by (simp add: float_strip_def 1 2)
qed

lemma digit_facts:
  "is_digit c \<Longrightarrow> \<not> is_float_space c \<and> c \<noteq> CHR ''-'' \<and> c \<noteq> CHR ''+'' \<and> c \<noteq> CHR ''.'' \<and>
     c \<noteq> CHR ''_'' \<and> c \<noteq> CHR ''e'' \<and> c \<noteq> CHR ''E'' \<and> lower_char c = c"
  by (auto simp: is_digit_def is_float_space_def lower_char_def is_upper_def Let_def)

lemma point_facts:
  "\<not> is_digit (CHR ''.'')" "\<not> is_digit (CHR ''i'')" "\<not> is_digit (CHR ''n'')"
  "\<not> is_digit (CHR ''N'')"
  by (simp_all add: is_digit_def)

lemma lower_digit_first:
  "is_digit c \<Longrightarrow> lower (c # u) \<noteq> ''inf'' \<and> lower (c # u) \<noteq> ''infinity'' \<and> lower (c # u) \<noteq> ''nan''"
  using point_facts by (auto simp: lower_def digit_facts)

lemma py_float_decimal:
  assumes "ip \<noteq> []" "fp \<noteq> []" "list_all is_digit ip" "list_all is_digit fp"
  shows "py_float (ip @ CHR ''.'' # fp) =
           Inr (finite_or_inf (of_int (int_of_digits (ip @ fp)) / 10 ^ length fp))"
proof -
  let ?s = "ip @ CHR ''.'' # fp"
  obtain c u where ip: "ip = c # u" using assms(1) by (cases ip) auto
  with assms(3) have c: "is_digit c" by simp
  have lst: "is_digit (last ?s)" using assms(2,4) by (simp add: list_all_iff)
  have st: "float_strip ?s = ?s"
    using c lst digit_facts by (intro float_strip_id) (auto simp: ip)
  have sg: "split_sign ?s = (False, ?s)"
    using c digit_facts by (auto simp: split_sign_def ip)
  have lw: "lower ?s \<noteq> ''inf'' \<and> lower ?s \<noteq> ''infinity'' \<and> lower ?s \<noteq> ''nan''"
    using lower_digit_first[OF c, of "u @ CHR ''.'' # fp"] by (simp add: ip)
  have d1: "digitpart ?s = Some (ip, CHR ''.'' # fp)"
    using assms(1,3) by (intro digitpart_all) (simp_all add: point_facts)
  have d2: "digitpart fp = Some (fp, [])"
    using digitpart_all[OF assms(2,4), of "[]"] by simp
  have m: "mantissa ?s = Some (ip @ fp, length fp, [])"
    by (simp add: mantissa_def d1 d2)
  have l0: "0 < length fp" using assms(2) by simp
  have dc: "decimal ?s = Some (of_int (int_of_digits (ip @ fp)) / 10 ^ length fp)"
    using l0 by (simp add: decimal_def m exponent_def)
  show ?thesis using lw by (simp add: py_float_def st sg dc)
qed

lemma py_float_integer:
  assumes "ip \<noteq> []" "list_all is_digit ip"
  shows "py_float ip = Inr (finite_or_inf (of_int (int_of_digits ip)))"
proof -
  obtain c u where ip: "ip = c # u" using assms(1) by (cases ip) auto
  with assms(2) have c: "is_digit c" by simp
  have lst: "is_digit (last ip)" using assms by (simp add: list_all_iff)
  have st: "float_strip ip = ip"
    using c lst digit_facts assms(1) by (intro float_strip_id) (auto simp: ip)
  have sg: "split_sign ip = (False, ip)"
    using c digit_facts by (auto simp: split_sign_def ip)
  have lw: "lower ip \<noteq> ''inf'' \<and> lower ip \<noteq> ''infinity'' \<and> lower ip \<noteq> ''nan''"
    using lower_digit_first[OF c, of u] by (simp add: ip)
  have d1: "digitpart ip = Some (ip, [])"
    using digitpart_all[OF assms, of "[]"] by simp
  have m: "mantissa ip = Some (ip, 0, [])"
    by (simp add: mantissa_def d1)
  have dc: "decimal ip = Some (of_int (int_of_digits ip))"
    by (simp add: decimal_def m exponent_def)
  show ?thesis using lw by (simp add: py_float_def st sg dc)
qed

lemma char_N: "char_of (78::nat) = CHR ''N''" by code_simp
lemma char_A: "char_of (65::nat) = CHR ''A''" by code_simp

lemma lower_char_n: "lower_char c = CHR ''n'' \<Longrightarrow> c = CHR ''n'' \<or> c = CHR ''N''"
proof (cases "is_upper c")
  case False
  assume "lower_char c = CHR ''n''"
  with False show ?thesis by (simp add: lower_char_def)
next
  case True
  assume a: "lower_char c = CHR ''n''"
  from True have b: "(of_char c :: nat) + 32 < 256" by (auto simp: is_upper_def Let_def)
  from a True have "of_char (char_of ((of_char c :: nat) + 32)) = (of_char (CHR ''n'') :: nat)"
    by (simp add: lower_char_def)
  with b have "(of_char c :: nat) = 78" by simp
  then have "char_of (of_char c :: nat) = char_of (78::nat)" by simp
  then show ?thesis by (simp add: char_N)
qed

lemma lower_char_a: "lower_char c = CHR ''a'' \<Longrightarrow> c = CHR ''a'' \<or> c = CHR ''A''"
proof (cases "is_upper c")
  case False
  assume "lower_char c = CHR ''a''"
  with False show ?thesis by (simp add: lower_char_def)
next
  case True
  assume a: "lower_char c = CHR ''a''"
  from True have b: "(of_char c :: nat) + 32 < 256" by (auto simp: is_upper_def Let_def)
  from a True have "of_char (char_of ((of_char c :: nat) + 32)) = (of_char (CHR ''a'') :: nat)"
    by (simp add: lower_char_def)
  with b have "(of_char c :: nat) = 65" by simp
  then have "char_of (of_char c :: nat) = char_of (65::nat)" by simp
  then show ?thesis by (simp add: char_A)
qed

lemma lower_nan_spellings:
  "lower t = ''nan'' \<Longrightarrow>
   t \<in> set [''nan'', ''naN'', ''nAn'', ''nAN'', ''Nan'', ''NaN'', ''NAn'', ''NAN'']"
proof -
  assume a: "lower t = ''nan''"
  then obtain x y z where t: "t = [x, y, z]"
    by (cases t; cases "tl t"; cases "tl (tl t)"; cases "tl (tl (tl t))") (auto simp: lower_def)
  with a have "lower_char x = CHR ''n''" "lower_char y = CHR ''a''" "lower_char z = CHR ''n''"
    by (simp_all add: lower_def)
  then have "(x = CHR ''n'' \<or> x = CHR ''N'') \<and> (y = CHR ''a'' \<or> y = CHR ''A'') \<and>
      (z = CHR ''n'' \<or> z = CHR ''N'')"
    by (simp add: lower_char_n lower_char_a)
  with t show ?thesis by auto
qed

lemma py_float_nan_spelling:
  assumes "lower t = ''nan''"
  shows "py_float t = Inr NaN"
proof -
  from lower_nan_spellings[OF assms] have
    "float_strip t = t \<and> split_sign t = (False, t)"
    by (auto simp: float_strip_def is_float_space_def split_sign_def)
  with assms show ?thesis by (simp add: py_float_def)
qed

lemma clean_amount_nan_spelling:
  assumes "lower t = ''nan''" "t \<noteq> ''nan''" "t \<noteq> ''NaN''"
  shows "clean_amount (Str t) = Inr NaN"
proof -
  from lower_nan_spellings[OF assms(1)] have "str_replace_comma t = t"
    by (auto simp: str_replace_comma_def)
  moreover from assms(1) have "t \<noteq> []" by (auto simp: lower_def)
  ultimately show ?thesis using assms
    by (simp add: clean_amount_def astype_str_def replace_values_def astype_float_def
          py_float_nan_spelling)
qed

lemma bound_example: "finite_or_inf (123450 / 100) = Finite (123450 / 100)"
  by (simp add: finite_or_inf_def overflow_bound_def)

lemma py_float_overflow: "py_float ''1e400'' = Inr PosInf"
  by (simp add: py_float_def float_strip_def is_float_space_def split_sign_def lower_def
        lower_char_def is_upper_def decimal_def mantissa_def digitpart_def is_digit_def
        exponent_def int_of_digits_def digit_val_def finite_or_inf_def overflow_bound_def)

lemma py_float_separator: "py_float [CHR 0x1C, CHR ''1''] = Inl ValueError"
  by (simp add: py_float_def float_strip_def is_float_space_def split_sign_def lower_def
        lower_char_def is_upper_def decimal_def mantissa_def digitpart_def is_digit_def)

lemma str_replace_comma_insert:
  "str_replace_comma (a @ CHR '','' # b) = str_replace_comma (a @ b)"
  by (simp add: str_replace_comma_def)

lemma str_replace_comma_amount: "str_replace_comma ''1,234.50'' = ''1234'' @ CHR ''.'' # ''50''"
  by (simp add: str_replace_comma_def)

lemma digits_amount: "list_all is_digit ''1234'' \<and> list_all is_digit ''50''"
  by (simp add: is_digit_def)

lemma int_of_digits_amount: "int_of_digits (''1234'' @ ''50'') = 123450"
  by (simp add: int_of_digits_def digit_val_def)

lemma clean_amount_zero:
  "str_replace_comma (astype_str v) = [] \<or> str_replace_comma (astype_str v) = ''nan'' \<or>
   str_replace_comma (astype_str v) = ''NaN'' \<Longrightarrow> clean_amount v = Inr (Finite 0)"
  by (auto simp: clean_amount_def replace_values_def astype_float_def)

lemma clean_amount_parsed:
  "\<not> (str_replace_comma (astype_str v) = [] \<or> str_replace_comma (astype_str v) = ''nan'' \<or>
      str_replace_comma (astype_str v) = ''NaN'') \<Longrightarrow>
   clean_amount v = py_float (str_replace_comma (astype_str v))"
  by (auto simp: clean_amount_def replace_values_def astype_float_def)

lemma clean_amount_decimal:
  assumes "str_replace_comma s = ip @ CHR ''.'' # fp" "ip \<noteq> []" "fp \<noteq> []"
    "list_all is_digit ip" "list_all is_digit fp"
  shows "clean_amount (Str s) =
           Inr (finite_or_inf (of_int (int_of_digits (ip @ fp)) / 10 ^ length fp))"
proof -
  obtain c u where "ip = c # u" using assms(2) by (cases ip) auto
  with assms(1,4) have "\<not> (str_replace_comma (astype_str (Str s)) = [] \<or>
      str_replace_comma (astype_str (Str s)) = ''nan'' \<or>
      str_replace_comma (astype_str (Str s)) = ''NaN'')"
    using point_facts by (auto simp: astype_str_def)
  from clean_amount_parsed[OF this] show ?thesis
    by (simp add: astype_str_def assms(1) py_float_decimal[OF assms(2,3,4,5)])
qed

lemma clean_amount_integer:
  assumes "str_replace_comma s = ip" "ip \<noteq> []" "list_all is_digit ip"
  shows "clean_amount (Str s) = Inr (finite_or_inf (of_int (int_of_digits ip)))"
proof -
  obtain c u where "ip = c # u" using assms(2) by (cases ip) auto
  with assms(1,3) have "\<not> (str_replace_comma (astype_str (Str s)) = [] \<or>
      str_replace_comma (astype_str (Str s)) = ''nan'' \<or>
      str_replace_comma (astype_str (Str s)) = ''NaN'')"
    using point_facts by (auto simp: astype_str_def)
  from clean_amount_parsed[OF this] show ?thesis
    by (simp add: astype_str_def assms(1) py_float_integer[OF assms(2,3)])
qed

lemma clean_amount_example: "clean_amount (Str ''1,234.50'') = Inr (Finite (123450 / 100))"
  using clean_amount_decimal[OF str_replace_comma_amount] digits_amount
  by (simp add: int_of_digits_amount[simplified] finite_or_inf_def overflow_bound_def)

lemma clean_amount_instances:
  "clean_amount (Str ''1e400'') = Inr PosInf \<and>
   clean_amount (Str ''inf'') = Inr PosInf \<and>
   clean_amount (Str '' -2,5.5e1 '') = Inr (Finite (- 255)) \<and>
   clean_amount (Str [CHR 0x1C, CHR ''1'']) = Inl ValueError \<and>
   clean_amount (Str ''abc'') = Inl ValueError"
  by (simp add: clean_amount_def astype_str_def str_replace_comma_def replace_values_def
        astype_float_def py_float_def float_strip_def is_float_space_def split_sign_def lower_def
        lower_char_def is_upper_def decimal_def mantissa_def digitpart_def is_digit_def
        exponent_def int_of_digits_def digit_val_def finite_or_inf_def overflow_bound_def)

text \<open>
  Claim C2, as the specification states it, says that the text nan in any letter case
  becomes zero. The replacement list holds the two spellings \<open>nan\<close> and \<open>NaN\<close> only: the
  text \<open>NAN\<close> is the same word in another letter case, it is not replaced, and the float
  conversion makes NaN of it, not zero.
\<close>

theorem C2_upper_case_nan_counterexample:
  "lower ''NAN'' = ''nan'' \<and>
   replace_values (str_replace_comma (astype_str (Str ''NAN''))) = Inr ''NAN'' \<and>
   clean_amount (Str ''NAN'') = Inr NaN \<and> clean_amount (Str ''NAN'') \<noteq> Inr (Finite 0)"
proof -
  have l: "lower ''NAN'' = ''nan''" by code_simp
  have "clean_amount (Str ''NAN'') = Inr NaN"
    by (rule clean_amount_nan_spelling[OF l]) simp_all
  with l show ?thesis
    by (simp add: astype_str_def str_replace_comma_def replace_values_def)
qed

text \<open>
  Claim C2, amended: for every cell of an amount column as \<open>astype(str)\<close> renders it
  (a text as it is, a missing value as \<open>nan\<close>), the cleanup deletes all commas and maps
  the empty string and exactly the two texts \<open>nan\<close> and \<open>NaN\<close> to zero; every other
  remainder is parsed as a floating-point amount, so that the other letter cases of
  \<open>nan\<close> yield NaN, and digits with or without a decimal fraction, grouped by commas in
  any way, yield the number they denote (an infinity beyond the range of a double). The
  text 1,234.50 yields 1234.50, the empty text yields 0.0, and \<open>nan\<close>, \<open>NaN\<close> and a
  missing value yield 0.0; a text that is no number raises ValueError.
\<close>

theorem C2_clean_amount:
  "(str_replace_comma (astype_str v) = [] \<or> str_replace_comma (astype_str v) = ''nan'' \<or>
    str_replace_comma (astype_str v) = ''NaN'' \<longrightarrow> clean_amount v = Inr (Finite 0)) \<and>
   (\<not> (str_replace_comma (astype_str v) = [] \<or> str_replace_comma (astype_str v) = ''nan'' \<or>
       str_replace_comma (astype_str v) = ''NaN'') \<longrightarrow>
      clean_amount v = py_float (str_replace_comma (astype_str v))) \<and>
   (lower t = ''nan'' \<and> t \<noteq> ''nan'' \<and> t \<noteq> ''NaN'' \<longrightarrow> clean_amount (Str t) = Inr NaN) \<and>
   (str_replace_comma s = ip @ CHR ''.'' # fp \<and> ip \<noteq> [] \<and> fp \<noteq> [] \<and>
    list_all is_digit ip \<and> list_all is_digit fp \<longrightarrow>
      clean_amount (Str s) =
        Inr (finite_or_inf (of_int (int_of_digits (ip @ fp)) / 10 ^ length fp))) \<and>
   (str_replace_comma s = ip \<and> ip \<noteq> [] \<and> list_all is_digit ip \<longrightarrow>
      clean_amount (Str s) = Inr (finite_or_inf (of_int (int_of_digits ip)))) \<and>
   clean_amount (Str (a @ CHR '','' # b)) = clean_amount (Str (a @ b)) \<and>
   CHR '','' \<notin> set (str_replace_comma s) \<and>
   int_of_digits (ds @ [d]) = 10 * int_of_digits ds + digit_val d \<and>
   clean_amount (Str ''1,234.50'') = Inr (Finite (123450 / 100)) \<and>
   clean_amount (Str []) = Inr (Finite 0) \<and>
   clean_amount (Str ''nan'') = Inr (Finite 0) \<and>
   clean_amount (Str ''NaN'') = Inr (Finite 0) \<and>
   clean_amount Missing = Inr (Finite 0) \<and>
   clean_amount (Str ''1e400'') = Inr PosInf \<and>
   clean_amount (Str ''inf'') = Inr PosInf \<and>
   clean_amount (Str '' -2,5.5e1 '') = Inr (Finite (- 255)) \<and>
   clean_amount (Str [CHR 0x1C, CHR ''1'']) = Inl ValueError \<and>
   clean_amount (Str ''abc'') = Inl ValueError"
proof (intro conjI impI)
  assume "str_replace_comma (astype_str v) = [] \<or> str_replace_comma (astype_str v) = ''nan'' \<or>
    str_replace_comma (astype_str v) = ''NaN''"
  then show "clean_amount v = Inr (Finite 0)" by (rule clean_amount_zero)
next
  assume "\<not> (str_replace_comma (astype_str v) = [] \<or> str_replace_comma (astype_str v) = ''nan'' \<or>
       str_replace_comma (astype_str v) = ''NaN'')"
  then show "clean_amount v = py_float (str_replace_comma (astype_str v))"
    by (rule clean_amount_parsed)
next
  assume "lower t = ''nan'' \<and> t \<noteq> ''nan'' \<and> t \<noteq> ''NaN''"
  then show "clean_amount (Str t) = Inr NaN" by (simp add: clean_amount_nan_spelling)
next
  assume "str_replace_comma s = ip @ CHR ''.'' # fp \<and> ip \<noteq> [] \<and> fp \<noteq> [] \<and>
    list_all is_digit ip \<and> list_all is_digit fp"
  then show "clean_amount (Str s) =
        Inr (finite_or_inf (of_int (int_of_digits (ip @ fp)) / 10 ^ length fp))"
    by (intro clean_amount_decimal) simp_all
next
  assume "str_replace_comma s = ip \<and> ip \<noteq> [] \<and> list_all is_digit ip"
  then show "clean_amount (Str s) = Inr (finite_or_inf (of_int (int_of_digits ip)))"
    by (intro clean_amount_integer) simp_all
next
  show "clean_amount (Str (a @ CHR '','' # b)) = clean_amount (Str (a @ b))"
    by (simp add: clean_amount_def astype_str_def str_replace_comma_insert)
  show "CHR '','' \<notin> set (str_replace_comma s)" by (simp add: str_replace_comma_def)
  show "int_of_digits (ds @ [d]) = 10 * int_of_digits ds + digit_val d"
    by (simp add: int_of_digits_def)
  show "clean_amount (Str ''1,234.50'') = Inr (Finite (123450 / 100))"
    by (rule clean_amount_example)
  show "clean_amount (Str []) = Inr (Finite 0)"
    by (rule clean_amount_zero) (simp add: astype_str_def str_replace_comma_def)
  show "clean_amount (Str ''nan'') = Inr (Finite 0)"
    by (rule clean_amount_zero) (simp add: astype_str_def str_replace_comma_def)
  show "clean_amount (Str ''NaN'') = Inr (Finite 0)"
    by (rule clean_amount_zero) (simp add: astype_str_def str_replace_comma_def)
  show "clean_amount Missing = Inr (Finite 0)"
    by (rule clean_amount_zero) (simp add: astype_str_def str_replace_comma_def)
  show "clean_amount (Str ''1e400'') = Inr PosInf"
    using clean_amount_instances by blast
  show "clean_amount (Str ''inf'') = Inr PosInf"
    using clean_amount_instances by blast
  show "clean_amount (Str '' -2,5.5e1 '') = Inr (Finite (- 255))"
    using clean_amount_instances by blast
  show "clean_amount (Str [CHR 0x1C, CHR ''1'']) = Inl ValueError"
    using clean_amount_instances by blast
  show "clean_amount (Str ''abc'') = Inl ValueError"
    using clean_amount_instances by blast
qed

theorem C2_clean_amount_witness:
  "str_replace_comma (astype_str Missing) = ''nan'' \<and> clean_amount Missing = Inr (Finite 0) \<and>
   str_replace_comma (astype_str (Str ''NAN'')) = ''NAN'' \<and>
   clean_amount (Str ''NAN'') = py_float ''NAN'' \<and>
   lower ''NAN'' = ''nan'' \<and> ''NAN'' \<noteq> ''nan'' \<and> ''NAN'' \<noteq> ''NaN'' \<and>
   clean_amount (Str ''NAN'') = Inr NaN \<and>
   str_replace_comma ''1,234.50'' = ''1234'' @ CHR ''.'' # ''50'' \<and>
   list_all is_digit ''1234'' \<and> list_all is_digit ''50'' \<and>
   clean_amount (Str ''1,234.50'') = Inr (finite_or_inf (123450 / 10 ^ 2)) \<and>
   str_replace_comma ''1,000'' = ''1000'' \<and> list_all is_digit ''1000'' \<and>
   clean_amount (Str ''1,000'') = Inr (finite_or_inf 1000)"
proof -
  note t1 = C2_clean_amount[of Missing "''NAN''" "''1,234.50''" "''1234''" "''50''"]
  note t2 = C2_clean_amount[of "Str ''NAN''" "''NAN''" "''1,000''" "''1000''" "''50''"]
  have h1: "str_replace_comma (astype_str Missing) = ''nan''"
    by (simp add: astype_str_def str_replace_comma_def)
  have h2: "str_replace_comma (astype_str (Str ''NAN'')) = ''NAN''"
    by (simp add: astype_str_def str_replace_comma_def)
  have h3: "lower ''NAN'' = ''nan''" by code_simp
  have h4: "str_replace_comma ''1,234.50'' = ''1234'' @ CHR ''.'' # ''50''"
    by (simp add: str_replace_comma_def)
  have h5: "list_all is_digit ''1234'' \<and> list_all is_digit ''50'' \<and> list_all is_digit ''1000''"
    by (simp add: is_digit_def)
  have h6: "str_replace_comma ''1,000'' = ''1000''" by (simp add: str_replace_comma_def)
  have h7: "int_of_digits (''1234'' @ ''50'') = 123450 \<and> int_of_digits ''1000'' = 1000"
    by (simp add: int_of_digits_def digit_val_def)
  from t1[THEN conjunct1] h1 have c1: "clean_amount Missing = Inr (Finite 0)" by simp
  from t2[THEN conjunct2, THEN conjunct1] h2
  have c2: "clean_amount (Str ''NAN'') = py_float ''NAN''" by simp
  from t1[THEN conjunct2, THEN conjunct2, THEN conjunct1] h3
  have c3: "clean_amount (Str ''NAN'') = Inr NaN" by simp
  from t1[THEN conjunct2, THEN conjunct2, THEN conjunct2, THEN conjunct1] h4 h5 h7
  have c4: "clean_amount (Str ''1,234.50'') = Inr (finite_or_inf (123450 / 10 ^ 2))" by simp
  from t2[THEN conjunct2, THEN conjunct2, THEN conjunct2, THEN conjunct2, THEN conjunct1] h5 h6 h7
  have c5: "clean_amount (Str ''1,000'') = Inr (finite_or_inf 1000)" by simp
  from h1 h2 h3 h4 h5 h6 c1 c2 c3 c4 c5 show ?thesis by simp
qed

section \<open>Properties of the summary tables\<close>

lemma groupby_sum_keys: "map fst (groupby_sum column df) = sort (remdups (map Category df))"
  by (simp add: groupby_sum_def comp_def)

lemma groupby_sum_total:
  "(c, t) \<in> set (groupby_sum column df) \<Longrightarrow>
   t = sum_list (map column (filter (\<lambda>r. Category r = c) df))"
  by (auto simp: groupby_sum_def)

lemma sort_values_desc_sorted: "sorted_wrt (\<lambda>x y. y \<le> x) (map snd (sort_values_desc xs))"
proof -
  have "sorted (map (\<lambda>p. - snd p) (sort_values_desc xs))"
    by (simp add: sort_values_desc_def)
  then show ?thesis by (simp add: sorted_wrt_map)
qed

lemma set_sort_values_desc: "set (sort_values_desc xs) = set xs"
  by (simp add: sort_values_desc_def)

lemma distinct_keys_sort_values_desc:
  "distinct (map fst xs) \<Longrightarrow> distinct (map fst (sort_values_desc xs))"
  by (simp add: sort_values_desc_def distinct_map)

lemma food_rows_totals:
  "category_totals Withdrawal_Amt food_rows = [(''Food'', 150), (''Transport'', 30)]"
  by (simp add: category_totals_def groupby_sum_def sort_values_desc_def food_rows_def)

text \<open>
  Claim C8: the summary groups the rows of a categorized table by category, sums the
  chosen amount column in each group and returns the pairs of category and total ordered
  by descending total. There is exactly one pair for each category that occurs in the
  table, and its total is the sum of the column over the rows of that category. On rows
  with the amounts 100 and 50 in Food and 30 in Transport the result is Food with 150
  followed by Transport with 30.
\<close>

theorem C8_category_totals:
  "sorted_wrt (\<lambda>x y. y \<le> x) (map snd (category_totals column df)) \<and>
   distinct (map fst (category_totals column df)) \<and>
   set (map fst (category_totals column df)) = Category ` set df \<and>
   (\<forall>c t. (c, t) \<in> set (category_totals column df) \<longrightarrow>
      t = sum_list (map column (filter (\<lambda>r. Category r = c) df))) \<and>
   category_totals Withdrawal_Amt food_rows = [(''Food'', 150), (''Transport'', 30)]"
proof (intro conjI allI impI)
  show "sorted_wrt (\<lambda>x y. y \<le> x) (map snd (category_totals column df))"
    by (simp add: category_totals_def sort_values_desc_sorted)
  have "distinct (map fst (groupby_sum column df))"
    by (simp add: groupby_sum_keys)
  then show "distinct (map fst (category_totals column df))"
    by (simp add: category_totals_def distinct_keys_sort_values_desc)
  have "set (map fst (category_totals column df)) = set (map fst (groupby_sum column df))"
    by (simp add: category_totals_def set_sort_values_desc)
  then show "set (map fst (category_totals column df)) = Category ` set df"
    by (simp add: groupby_sum_keys)
  show "category_totals Withdrawal_Amt food_rows = [(''Food'', 150), (''Transport'', 30)]"
    by (rule food_rows_totals)
next
  fix c t
  assume "(c, t) \<in> set (category_totals column df)"
  then have "(c, t) \<in> set (groupby_sum column df)"
    by (simp add: category_totals_def set_sort_values_desc)
  then show "t = sum_list (map column (filter (\<lambda>r. Category r = c) df))"
    by (rule groupby_sum_total)
qed

theorem C8_category_totals_witness:
  "(''Food'', 150) \<in> set (category_totals Withdrawal_Amt food_rows) \<and>
   (150::rat) = sum_list (map Withdrawal_Amt (filter (\<lambda>r. Category r = ''Food'') food_rows)) \<and>
   category_totals Withdrawal_Amt food_rows = [(''Food'', 150), (''Transport'', 30)]"
proof -
  have h: "(''Food'', 150) \<in> set (category_totals Withdrawal_Amt food_rows)"
    by (simp add: food_rows_totals)
  from C8_category_totals[of Withdrawal_Amt food_rows] h show ?thesis by blast
qed

end
